theory Spec2Isabelle
  imports Main "HOL-Library.Word"
begin

unbundle bit_operations_syntax

section \<open>Data model of gstchecksumsink.c\<close>

text \<open>
  \<open>guint\<close> is a 32-bit unsigned integer whose arithmetic wraps around; \<open>guint8\<close> is
  a byte. \<open>gint\<close> fields of \<open>GstVideoInfo\<close> (width, height) are converted to
  \<open>guint\<close> on assignment, which keeps their 32 bits, so they are held as 32-bit words.
\<close>

type_synonym guint = "32 word"
type_synonym guint8 = "8 word"

datatype GChecksumType = G_CHECKSUM_MD5 | G_CHECKSUM_SHA1 | G_CHECKSUM_SHA256

text \<open>The video formats of GStreamer; only the first two are accepted by the sink.\<close>

datatype GstVideoFormat =
    GST_VIDEO_FORMAT_I420
  | GST_VIDEO_FORMAT_YV12
  | GST_VIDEO_FORMAT_UNKNOWN
  | GST_VIDEO_FORMAT_ENCODED
  | GST_VIDEO_FORMAT_YUY2
  | GST_VIDEO_FORMAT_NV12
  | GST_VIDEO_FORMAT_RGB
  | GST_VIDEO_FORMAT_GRAY8

record GstVideoInfo =
  vinfo_format :: GstVideoFormat
  vinfo_width :: guint
  vinfo_height :: guint

record GstChecksumSink =
  vinfo :: GstVideoInfo
  checksum_type :: GChecksumType
  plane_checksum :: bool

text \<open>
  \<open>GstVideoCropMeta\<close> carries a rectangle \<open>x, y, width, height\<close>; the sink reads only
  \<open>width\<close> and \<open>height\<close>.
\<close>

record GstVideoCropMeta =
  crop_x :: guint
  crop_y :: guint
  crop_width :: guint
  crop_height :: guint

text \<open>
  A buffer as the render function sees it: its optional crop meta, whether its memory
  can be mapped for reading, and for each plane index the bytes behind \<open>frame.data[plane]\<close>
  and the (signed) stride \<open>frame.info.stride[plane]\<close> that a successful map yields.
\<close>

record GstBuffer =
  crop_meta :: "GstVideoCropMeta option"
  readable :: bool
  plane_data :: "nat \<Rightarrow> guint8 list"
  plane_stride :: "nat \<Rightarrow> int"

record GstVideoFrame =
  n_planes :: guint
  frame_data :: "nat \<Rightarrow> guint8 list"
  frame_stride :: "nat \<Rightarrow> int"

section \<open>The checksum engine (GLib)\<close>

text \<open>
  Modelled from the spec: \<open>g_compute_checksum_for_data\<close> is GLib's and not part of this
  repository. The spec's Checksum Engine is a pure function from an algorithm and a byte
  range to a lowercase hexadecimal digest. The render function takes it as the parameter
  \<open>cs\<close>. For the SHA-1 scenario the engine is SHA-1 as FIPS 180-4 defines it, written out
  below.
\<close>

type_synonym checksum_engine = "GChecksumType \<Rightarrow> guint8 list \<Rightarrow> string"

definition hex_chars :: string where
  "hex_chars = ''0123456789abcdef''"

definition hex_digit :: "nat \<Rightarrow> char" where
  "hex_digit n = hex_chars ! (n mod 16)"

definition hex_byte :: "guint8 \<Rightarrow> string" where
  "hex_byte b = [hex_digit (unat b div 16), hex_digit (unat b mod 16)]"

definition hex_of_bytes :: "guint8 list \<Rightarrow> string" where
  "hex_of_bytes bs = concat (map hex_byte bs)"

definition rotl32 :: "nat \<Rightarrow> 32 word \<Rightarrow> 32 word" where
  "rotl32 n x = push_bit n x OR drop_bit (32 - n) x"

definition be32 :: "guint8 list \<Rightarrow> 32 word" where
  "be32 bs = foldl (\<lambda>acc b. push_bit 8 acc OR ucast b) 0 bs"

definition word_bytes :: "32 word \<Rightarrow> guint8 list" where
  "word_bytes x = [ucast (drop_bit 24 x), ucast (drop_bit 16 x), ucast (drop_bit 8 x), ucast x]"

definition len_bytes :: "nat \<Rightarrow> guint8 list" where
  "len_bytes n = map (\<lambda>k. of_nat ((n div 2 ^ (8 * k)) mod 256)) [7, 6, 5, 4, 3, 2, 1, 0]"

definition sha1_pad :: "guint8 list \<Rightarrow> guint8 list" where
  "sha1_pad m =
     m @ [0x80] @ replicate ((119 - length m mod 64) mod 64) 0 @ len_bytes (8 * length m)"

fun chunks :: "nat \<Rightarrow> nat \<Rightarrow> 'a list \<Rightarrow> 'a list list" where
  "chunks k 0 xs = []"
| "chunks k (Suc n) xs = take k xs # chunks k n (drop k xs)"

definition sha1_f :: "nat \<Rightarrow> 32 word \<Rightarrow> 32 word \<Rightarrow> 32 word \<Rightarrow> 32 word" where
  "sha1_f t b c d =
     (if t < 20 then (b AND c) OR (NOT b AND d)
      else if t < 40 then b XOR c XOR d
      else if t < 60 then (b AND c) OR (b AND d) OR (c AND d)
      else b XOR c XOR d)"

definition sha1_k :: "nat \<Rightarrow> 32 word" where
  "sha1_k t =
     (if t < 20 then 0x5A827999
      else if t < 40 then 0x6ED9EBA1
      else if t < 60 then 0x8F1BBCDC
      else 0xCA62C1D6)"

text \<open>
  The message schedule is kept as a window of the last 16 words; round \<open>t\<close> consumes the
  head of the window and appends \<open>W(t+16)\<close>.
\<close>

definition sha1_next_w :: "32 word list \<Rightarrow> 32 word" where
  "sha1_next_w w = rotl32 1 (w ! 13 XOR w ! 8 XOR w ! 2 XOR w ! 0)"

type_synonym sha1_state = "32 word \<times> 32 word \<times> 32 word \<times> 32 word \<times> 32 word"

fun sha1_rounds :: "nat \<Rightarrow> nat \<Rightarrow> 32 word list \<Rightarrow> sha1_state \<Rightarrow> sha1_state" where
  "sha1_rounds 0 t w s = s"
| "sha1_rounds (Suc n) t w (a, b, c, d, e) =
     sha1_rounds n (Suc t) (tl w @ [sha1_next_w w])
       (rotl32 5 a + sha1_f t b c d + e + sha1_k t + hd w, a, rotl32 30 b, c, d)"

definition sha1_block :: "sha1_state \<Rightarrow> guint8 list \<Rightarrow> sha1_state" where
  "sha1_block h blk =
     (case h of (h0, h1, h2, h3, h4) \<Rightarrow>
        (case sha1_rounds 80 0 (map be32 (chunks 4 16 blk)) h of (a, b, c, d, e) \<Rightarrow>
           (h0 + a, h1 + b, h2 + c, h3 + d, h4 + e)))"

definition sha1_init :: sha1_state where
  "sha1_init = (0x67452301, 0xEFCDAB89, 0x98BADCFE, 0x10325476, 0xC3D2E1F0)"

definition sha1 :: "guint8 list \<Rightarrow> guint8 list" where
  "sha1 m =
     (let p = sha1_pad m in
      case foldl sha1_block sha1_init (chunks 64 (length p div 64) p) of
        (h0, h1, h2, h3, h4) \<Rightarrow>
          word_bytes h0 @ word_bytes h1 @ word_bytes h2 @ word_bytes h3 @ word_bytes h4)"

definition sha1_hex :: "guint8 list \<Rightarrow> string" where
  "sha1_hex m = hex_of_bytes (sha1 m)"

section \<open>Memory touched by the render function\<close>

text \<open>
  The scratch buffer returned by \<open>g_malloc\<close>: one cell per byte, \<open>None\<close> while the byte
  has not been written. \<open>g_malloc\<close> takes a \<open>gsize\<close>; the \<open>guint\<close> argument is
  zero-extended.
\<close>

type_synonym scratch = "guint8 option list"

definition g_malloc :: "guint \<Rightarrow> scratch" where
  "g_malloc n = replicate (unat n) None"

text \<open>
  Reading \<open>n\<close> bytes at offset \<open>s\<close> of a mapped plane. The offset is signed, as the
  stride is; a range that leaves the plane's bytes is an invalid access (\<open>None\<close>).
\<close>

definition read_row :: "guint8 list \<Rightarrow> int \<Rightarrow> nat \<Rightarrow> guint8 list option" where
  "read_row src s n =
     (if 0 \<le> s \<and> nat s + n \<le> length src then Some (take n (drop (nat s) src)) else None)"

text \<open>
  \<open>memcpy (data, sp, w)\<close> with \<open>data\<close> at offset \<open>d\<close> of the scratch buffer and
  \<open>sp\<close> at offset \<open>s\<close> of the plane: \<open>None\<close> when the destination range leaves the
  allocation or the source range leaves the plane.
\<close>

definition memcpy :: "scratch \<Rightarrow> nat \<Rightarrow> guint8 list \<Rightarrow> int \<Rightarrow> nat \<Rightarrow> scratch option" where
  "memcpy dst d src s n =
     (if d + n \<le> length dst
      then (case read_row src s n of
              None \<Rightarrow> None
            | Some bs \<Rightarrow> Some (take d dst @ map Some bs @ drop (d + n) dst))
      else None)"

text \<open>
  The bytes \<open>g_compute_checksum_for_data\<close> reads: \<open>n\<close> bytes at offset \<open>off\<close> of the
  scratch buffer; \<open>None\<close> when the range leaves the allocation or holds a byte that was
  never written.
\<close>

definition read_range :: "scratch \<Rightarrow> nat \<Rightarrow> nat \<Rightarrow> guint8 list option" where
  "read_range mem off n =
     (if off + n \<le> length mem then those (take n (drop off mem)) else None)"

section \<open>The render function\<close>

datatype render_result =
    GST_FLOW_OK
  | GST_FLOW_ERROR
  | ASSERT_NOT_REACHED
  | INVALID_MEMORY_ACCESS

text \<open>
  What a call does besides returning: mapping the frame (with its success), allocating
  the scratch buffer (with its size in bytes), printing, freeing the scratch buffer (with
  the offset of the freed pointer from the allocation, and what the buffer holds at that
  moment) and unmapping the frame.
\<close>

datatype event =
    FrameMap bool
  | Malloc nat
  | Print string
  | Free nat scratch
  | FrameUnmap

definition printed :: "event list \<Rightarrow> string" where
  "printed evs = concat (map (\<lambda>e. case e of Print s \<Rightarrow> s | _ \<Rightarrow> []) evs)"

text \<open>
  Modelled from the spec: the plane count of a format comes from GStreamer's format
  table, which is not part of this repository. Both supported formats have a luma plane
  and two chroma planes.
\<close>

definition format_n_planes :: "GstVideoFormat \<Rightarrow> guint" where
  "format_n_planes f =
     (case f of
        GST_VIDEO_FORMAT_I420 \<Rightarrow> 3
      | GST_VIDEO_FORMAT_YV12 \<Rightarrow> 3
      | GST_VIDEO_FORMAT_NV12 \<Rightarrow> 2
      | GST_VIDEO_FORMAT_YUY2 \<Rightarrow> 1
      | GST_VIDEO_FORMAT_RGB \<Rightarrow> 1
      | GST_VIDEO_FORMAT_GRAY8 \<Rightarrow> 1
      | GST_VIDEO_FORMAT_UNKNOWN \<Rightarrow> 0
      | GST_VIDEO_FORMAT_ENCODED \<Rightarrow> 0)"

text \<open>
  Modelled from the spec: \<open>gst_video_frame_map\<close> is GStreamer's. It fails when the
  buffer cannot be mapped for reading, and otherwise yields the per-plane data pointers
  and strides of the buffer together with the format's plane count.
\<close>

definition gst_video_frame_map :: "GstVideoInfo \<Rightarrow> GstBuffer \<Rightarrow> GstVideoFrame option" where
  "gst_video_frame_map info buffer =
     (if readable buffer
      then Some \<lparr>n_planes = format_n_planes (vinfo_format info),
                 frame_data = plane_data buffer,
                 frame_stride = plane_stride buffer\<rparr>
      else None)"

definition get_plane_width_and_height :: "guint \<Rightarrow> guint \<Rightarrow> guint \<Rightarrow> guint \<times> guint" where
  "get_plane_width_and_height plane width height =
     (if plane \<noteq> 0 then (width div 2, height div 2) else (width, height))"

text \<open>Lines 246 to 252: the width and height the call works with.\<close>

definition frame_width_height :: "GstChecksumSink \<Rightarrow> GstBuffer \<Rightarrow> guint \<times> guint" where
  "frame_width_height checksumsink buffer =
     (case crop_meta buffer of
        None \<Rightarrow> (vinfo_width (vinfo checksumsink), vinfo_height (vinfo checksumsink))
      | Some crop \<Rightarrow> (crop_width crop, crop_height crop))"

text \<open>
  The row loop of lines 285 to 289, with \<open>k\<close> the rows still to copy, \<open>sp\<close> the source
  offset and \<open>d\<close> the offset of \<open>data\<close> in the scratch buffer.
\<close>

fun copy_rows ::
  "nat \<Rightarrow> guint8 list \<Rightarrow> int \<Rightarrow> nat \<Rightarrow> int \<Rightarrow> nat \<times> scratch \<Rightarrow> (nat \<times> scratch) option"
where
  "copy_rows 0 src stride w sp (d, mem) = Some (d, mem)"
| "copy_rows (Suc k) src stride w sp (d, mem) =
     (case memcpy mem d src sp w of
        None \<Rightarrow> None
      | Some mem' \<Rightarrow> copy_rows k src stride w (sp + stride) (d + w, mem'))"

text \<open>
  The logical content of a plane: \<open>k\<close> rows of \<open>w\<close> bytes, the first at offset
  \<open>sp\<close> and each \<open>stride\<close> after the one before. This is what the row loop is meant
  to append to the scratch buffer.
\<close>

fun rows_of :: "nat \<Rightarrow> guint8 list \<Rightarrow> int \<Rightarrow> nat \<Rightarrow> int \<Rightarrow> guint8 list" where
  "rows_of 0 src stride w sp = []"
| "rows_of (Suc k) src stride w sp =
     take w (drop (nat sp) src) @ rows_of k src stride w (sp + stride)"

text \<open>
  The logical content of plane \<open>plane\<close> of a buffer for a frame of \<open>width\<close> by
  \<open>height\<close>: its rows at the plane's logical width, without the row padding.
\<close>

definition plane_bytes ::
  "(nat \<Rightarrow> guint8 list) \<Rightarrow> (nat \<Rightarrow> int) \<Rightarrow> guint \<Rightarrow> guint \<Rightarrow> guint \<Rightarrow> guint8 list"
where
  "plane_bytes data strides width height plane =
     (case get_plane_width_and_height plane width height of (w, h) \<Rightarrow>
        rows_of (unat h) (data (unat plane)) (strides (unat plane)) (unat w) 0)"

text \<open>
  The \<open>switch (plane)\<close> of lines 294 to 317: the offset of \<open>pp\<close> from \<open>dp\<close> and
  \<open>plane_size\<close>. Pointer arithmetic does not wrap at 32 bits, so the offsets are added
  as naturals. The switch has no default: for any other plane \<open>plane_size\<close> is
  indeterminate (\<open>None\<close>).
\<close>

definition plane_slice ::
  "GstVideoFormat \<Rightarrow> guint \<Rightarrow> guint \<Rightarrow> guint \<Rightarrow> guint \<Rightarrow> (nat \<times> guint) option"
where
  "plane_slice fmt plane Ysize Usize Vsize =
     (if plane = 0 then Some (0, Ysize)
      else if plane = 1 then
        Some (unat Ysize, if fmt = GST_VIDEO_FORMAT_I420 then Usize else Vsize)
      else if plane = 2 then
        (if fmt = GST_VIDEO_FORMAT_I420 then Some (unat Ysize + unat Usize, Vsize)
         else Some (unat Ysize + unat Vsize, Usize))
      else None)"

type_synonym loop_state = "nat \<times> scratch \<times> event list"

text \<open>
  The body of the plane loop, lines 281 to 324. \<open>Inl\<close> is an invalid memory access, with
  the events up to it.
\<close>

definition render_plane ::
  "checksum_engine \<Rightarrow> GstChecksumSink \<Rightarrow> GstVideoFrame \<Rightarrow> guint \<Rightarrow> guint \<Rightarrow>
   guint \<Rightarrow> guint \<Rightarrow> guint \<Rightarrow> guint \<Rightarrow> loop_state \<Rightarrow> event list + loop_state"
where
  "render_plane cs checksumsink frame width height Ysize Usize Vsize plane st =
     (case st of (d, mem, evs) \<Rightarrow>
        (case get_plane_width_and_height plane width height of (w, h) \<Rightarrow>
           (case copy_rows (unat h) (frame_data frame (unat plane))
                   (frame_stride frame (unat plane)) (unat w) 0 (d, mem) of
              None \<Rightarrow> Inl evs
            | Some (d', mem') \<Rightarrow>
                if plane_checksum checksumsink then
                  (case plane_slice (vinfo_format (vinfo checksumsink)) plane Ysize Usize Vsize of
                     None \<Rightarrow> Inl evs
                   | Some (pp, plane_size) \<Rightarrow>
                       (case read_range mem' pp (unat plane_size) of
                          None \<Rightarrow> Inl evs
                        | Some bytes \<Rightarrow>
                            Inr (d', mem',
                                 evs @ [Print (cs (checksum_type checksumsink) bytes @ ''  '')])))
                else Inr (d', mem', evs))))"

text \<open>\<open>for (plane = 0; plane < n_planes; plane++)\<close>, with \<open>k\<close> the planes still to do.\<close>

fun plane_loop ::
  "(guint \<Rightarrow> loop_state \<Rightarrow> event list + loop_state) \<Rightarrow> nat \<Rightarrow> guint \<Rightarrow> loop_state \<Rightarrow>
   event list + loop_state"
where
  "plane_loop body 0 plane st = Inr st"
| "plane_loop body (Suc k) plane st =
     (case body plane st of
        Inl evs \<Rightarrow> Inl evs
      | Inr st' \<Rightarrow> plane_loop body k (plane + 1) st')"

definition newline :: string where
  "newline = [CHR 0x0A]"

text \<open>
  \<open>gst_checksum_sink_render\<close>. The result is the sink after the call, what the call
  returned or how it ended, and its events in order. \<open>ASSERT_NOT_REACHED\<close> is the
  abort of \<open>g_assert_not_reached\<close> (assertions enabled, as GLib builds them by
  default); \<open>INVALID_MEMORY_ACCESS\<close> is a \<open>memcpy\<close> or a digest that leaves the
  memory it may touch, where the C program has no defined behaviour. The messages of
  \<open>GST_ERROR_OBJECT\<close> go to the debug log, not to the output, and are left out.
\<close>

definition gst_checksum_sink_render ::
  "checksum_engine \<Rightarrow> GstChecksumSink \<Rightarrow> GstBuffer \<Rightarrow>
   GstChecksumSink \<times> render_result \<times> event list"
where
  "gst_checksum_sink_render cs checksumsink buffer =
     (case frame_width_height checksumsink buffer of (width, height) \<Rightarrow>
        if vinfo_format (vinfo checksumsink) \<noteq> GST_VIDEO_FORMAT_I420 \<and>
           vinfo_format (vinfo checksumsink) \<noteq> GST_VIDEO_FORMAT_YV12
        then (checksumsink, GST_FLOW_ERROR, [])
        else
          let Ysize = width * height;
              Usize = (width div 2) * (height div 2);
              Vsize = Usize;
              size' = Ysize + Usize + Vsize
          in
            (case gst_video_frame_map (vinfo checksumsink) buffer of
               None \<Rightarrow> (checksumsink, ASSERT_NOT_REACHED, [FrameMap False])
             | Some frame \<Rightarrow>
                 (case plane_loop
                         (render_plane cs checksumsink frame width height Ysize Usize Vsize)
                         (unat (n_planes frame)) 0
                         (0, g_malloc size', [FrameMap True, Malloc (unat size')]) of
                    Inl evs \<Rightarrow> (checksumsink, INVALID_MEMORY_ACCESS, evs)
                  | Inr (d, mem, evs) \<Rightarrow>
                      let data = 0 in
                        if plane_checksum checksumsink
                        then (checksumsink, GST_FLOW_OK,
                              evs @ [Print newline, Free data mem, FrameUnmap])
                        else
                          (case read_range mem data (unat size') of
                             None \<Rightarrow> (checksumsink, INVALID_MEMORY_ACCESS, evs)
                           | Some bytes \<Rightarrow>
                               (checksumsink, GST_FLOW_OK,
                                evs @ [Print (''FrameChecksum '' @
                                              cs (checksum_type checksumsink) bytes @ newline),
                                       Free data mem, FrameUnmap])))))"

text \<open>
  The logical pixel content of plane \<open>p\<close> of a buffer, row by row: for each row of the
  plane the first logical-width bytes, found \<open>stride\<close> bytes after the row before
  (\<open>None\<close> for a row that leaves the plane's bytes).
\<close>

definition logical_rows :: "GstBuffer \<Rightarrow> guint \<Rightarrow> guint \<Rightarrow> nat \<Rightarrow> guint8 list option list" where
  "logical_rows buffer width height p =
     (case get_plane_width_and_height (of_nat p) width height of (w, h) \<Rightarrow>
        map (\<lambda>j. read_row (plane_data buffer p) (int j * plane_stride buffer p) (unat w))
          [0..<unat h])"

text \<open>A digest in lowercase hexadecimal.\<close>

definition is_hex :: "string \<Rightarrow> bool" where
  "is_hex s = list_all (\<lambda>c. c \<in> set hex_chars) s"

section \<open>Scenarios\<close>

text \<open>
  An engine that answers with the SHA-1 digest in lowercase hexadecimal.
\<close>

definition sha1_engine :: checksum_engine where
  "sha1_engine ty bs = sha1_hex bs"

text \<open>
  The identity on 32-bit words, used to keep numerals reduced modulo \<open>2 ^ 32\<close> while a
  digest is computed by rewriting.
\<close>

definition norm32 :: "32 word \<Rightarrow> 32 word" where
  "norm32 x = x"

text \<open>
  The sink of the concrete scenario: a negotiated 4 by 4 I420 stream, SHA-1, whole-frame
  mode; and a readable buffer without crop meta whose planes (16, 4 and 4 bytes, rows
  without padding) are all zero.
\<close>

definition scenario_sink :: GstChecksumSink where
  "scenario_sink =
     \<lparr>vinfo = \<lparr>vinfo_format = GST_VIDEO_FORMAT_I420, vinfo_width = 4, vinfo_height = 4\<rparr>,
      checksum_type = G_CHECKSUM_SHA1,
      plane_checksum = False\<rparr>"

definition scenario_buffer :: GstBuffer where
  "scenario_buffer =
     \<lparr>crop_meta = None,
      readable = True,
      plane_data = (\<lambda>p. if p = 0 then replicate 16 0 else replicate 4 0),
      plane_stride = (\<lambda>p. if p = 0 then 4 else 2)\<rparr>"


text \<open>A sink whose negotiated format is not supported, and a buffer that cannot be mapped.\<close>

definition nv12_sink :: GstChecksumSink where
  "nv12_sink =
     \<lparr>vinfo = \<lparr>vinfo_format = GST_VIDEO_FORMAT_NV12, vinfo_width = 4, vinfo_height = 4\<rparr>,
      checksum_type = G_CHECKSUM_SHA1,
      plane_checksum = False\<rparr>"

definition unreadable_buffer :: GstBuffer where
  "unreadable_buffer = scenario_buffer\<lparr>readable := False\<rparr>"

text \<open>The scenario's buffer with a crop meta of 2 by 2.\<close>

definition cropped_buffer :: GstBuffer where
  "cropped_buffer =
     scenario_buffer\<lparr>crop_meta := Some \<lparr>crop_x = 0, crop_y = 0, crop_width = 2, crop_height = 2\<rparr>\<rparr>"

text \<open>
  A negotiated I420 stream of 1431655766 by 2 and a readable buffer that holds such a
  frame: a luma plane of 2 rows of 1431655766 bytes and two chroma planes of 1 row of
  715827883 bytes.
\<close>

definition wide_sink :: GstChecksumSink where
  "wide_sink =
     \<lparr>vinfo = \<lparr>vinfo_format = GST_VIDEO_FORMAT_I420, vinfo_width = 1431655766, vinfo_height = 2\<rparr>,
      checksum_type = G_CHECKSUM_SHA1,
      plane_checksum = False\<rparr>"

definition wide_buffer :: GstBuffer where
  "wide_buffer =
     \<lparr>crop_meta = None,
      readable = True,
      plane_data = (\<lambda>p. if p = 0 then replicate 2863311532 0 else replicate 715827883 0),
      plane_stride = (\<lambda>p. if p = 0 then 1431655766 else 715827883)\<rparr>"

text \<open>
  Two sinks in per-plane mode, one for each supported format, and a readable 4 by 4 frame
  whose planes differ from one another: the luma rows are 6 bytes apart and the chroma
  rows 3 bytes apart, with padding bytes \<open>0xEE\<close> between the rows. \<open>gradient_packed\<close>
  is the frame without its padding, plane after plane.
\<close>

definition yv12_planes_sink :: GstChecksumSink where
  "yv12_planes_sink =
     \<lparr>vinfo = \<lparr>vinfo_format = GST_VIDEO_FORMAT_YV12, vinfo_width = 4, vinfo_height = 4\<rparr>,
      checksum_type = G_CHECKSUM_SHA1,
      plane_checksum = True\<rparr>"

definition i420_planes_sink :: GstChecksumSink where
  "i420_planes_sink =
     \<lparr>vinfo = \<lparr>vinfo_format = GST_VIDEO_FORMAT_I420, vinfo_width = 4, vinfo_height = 4\<rparr>,
      checksum_type = G_CHECKSUM_SHA1,
      plane_checksum = True\<rparr>"

definition gradient_buffer :: GstBuffer where
  "gradient_buffer =
     \<lparr>crop_meta = None,
      readable = True,
      plane_data = (\<lambda>p.
         if p = 0 then [1, 2, 3, 4, 0xEE, 0xEE, 5, 6, 7, 8, 0xEE, 0xEE,
                        9, 10, 11, 12, 0xEE, 0xEE, 13, 14, 15, 16]
         else if p = 1 then [0x21, 0x22, 0xEE, 0x23, 0x24]
         else [0x31, 0x32, 0xEE, 0x33, 0x34]),
      plane_stride = (\<lambda>p. if p = 0 then 6 else 3)\<rparr>"

definition gradient_packed :: "guint8 list" where
  "gradient_packed =
     [1, 2, 3, 4, 5, 6, 7, 8, 9, 10, 11, 12, 13, 14, 15, 16,
      0x21, 0x22, 0x23, 0x24, 0x31, 0x32, 0x33, 0x34]"

section \<open>Evaluating SHA-1\<close>

lemma word32_of_int_mod: "(word_of_int (x mod 4294967296) :: 32 word) = word_of_int x"
  by (simp add: word_of_int_eq_iff take_bit_eq_mod)

lemma norm32_numeral: "norm32 (numeral k) = word_of_int (numeral k mod 4294967296)"
  by (simp only: norm32_def word32_of_int_mod of_int_numeral)

lemma norm32_neg_numeral: "norm32 (- numeral k) = word_of_int (- numeral k mod 4294967296)"
  by (simp only: norm32_def word32_of_int_mod of_int_numeral of_int_minus)

lemma norm32_01: "norm32 0 = 0" "norm32 1 = 1"
  by (simp_all add: norm32_def)

lemmas norm32_simps = norm32_numeral norm32_neg_numeral norm32_01

lemma sha1_rounds_numeral:
  "sha1_rounds (numeral k) t w (a, b, c, d, e) =
     sha1_rounds (pred_numeral k) (Suc t) (tl w @ [norm32 (sha1_next_w w)])
       (norm32 (rotl32 5 a + sha1_f t b c d + e + sha1_k t + hd w), a, norm32 (rotl32 30 b), c, d)"
  by (simp add: numeral_eq_Suc norm32_def)

lemma chunks_numeral:
  "chunks k (numeral n) xs = take k xs # chunks k (pred_numeral n) (drop k xs)"
  by (simp add: numeral_eq_Suc)

lemma replicate_numeral: "replicate (numeral k) x = x # replicate (pred_numeral k) x"
  by (simp add: numeral_eq_Suc)

lemma sha1_zero24_words:
  "map be32 (chunks 4 16 (sha1_pad (replicate 24 0))) =
     [0, 0, 0, 0, 0, 0, 0x80000000, 0, 0, 0, 0, 0, 0, 0, 0, 0xC0]"
  by (simp add: sha1_pad_def len_bytes_def chunks_numeral replicate_numeral be32_def)

lemma sha1_zero24_rounds:
  "sha1_rounds 80 0 [0, 0, 0, 0, 0, 0, 0x80000000, 0, 0, 0, 0, 0, 0, 0, 0, 0xC0] sha1_init =
     (1811183729, 1932372802, 102069976, 2105988262, 2100647892)"
  by (simp add: sha1_rounds_numeral norm32_simps sha1_init_def sha1_next_w_def
        rotl32_def sha1_f_def sha1_k_def)

lemma sha1_zero24_length: "length (sha1_pad (replicate 24 0)) = 64"
  by (simp add: sha1_pad_def len_bytes_def)

lemma sha1_zero24_block:
  "sha1_block sha1_init (sha1_pad (replicate 24 0)) =
     (norm32 (0x67452301 + 1811183729), norm32 (0xEFCDAB89 + 1932372802),
      norm32 (0x98BADCFE + 102069976), norm32 (0x10325476 + 2105988262),
      norm32 (0xC3D2E1F0 + 2100647892))"
  unfolding sha1_block_def sha1_zero24_words
  by (simp add: sha1_zero24_rounds norm32_def) (simp add: sha1_init_def)

lemma sha1_zero24:
  "sha1_hex (replicate 24 0) = ''d3399b7262fb56cb9ed053d68db9291c410839c4''"
proof -
  have "chunks 64 (length (sha1_pad (replicate 24 0)) div 64)
          (sha1_pad (replicate 24 (0::8 word))) = [sha1_pad (replicate 24 0)]"
    by (simp add: sha1_zero24_length)
  then have "sha1 (replicate 24 0) =
      (case sha1_block sha1_init (sha1_pad (replicate 24 0)) of (h0, h1, h2, h3, h4) \<Rightarrow>
         word_bytes h0 @ word_bytes h1 @ word_bytes h2 @ word_bytes h3 @ word_bytes h4)"
    by (simp add: sha1_def Let_def)
  then show ?thesis
    unfolding sha1_hex_def
    by (simp add: sha1_zero24_block norm32_simps word_bytes_def hex_of_bytes_def
          hex_byte_def hex_digit_def hex_chars_def)
qed

text \<open>The example of FIPS 180: the digest of the three bytes \<open>abc\<close>.\<close>

lemma sha1_abc_words:
  "map be32 (chunks 4 16 (sha1_pad [0x61, 0x62, 0x63])) =
     [0x61626380, 0, 0, 0, 0, 0, 0, 0, 0, 0, 0, 0, 0, 0, 0, 0x18]"
  by (simp add: sha1_pad_def len_bytes_def chunks_numeral replicate_numeral be32_def)

lemma sha1_abc_rounds:
  "sha1_rounds 80 0 [0x61626380, 0, 0, 0, 0, 0, 0, 0, 0, 0, 0, 0, 0, 0, 0, 0x18] sha1_init =
     (1112808245, 1463342561, 562251891, 1746824694, 3640522413)"
  by (simp add: sha1_rounds_numeral norm32_simps sha1_init_def sha1_next_w_def
        rotl32_def sha1_f_def sha1_k_def)

lemma sha1_abc_block:
  "sha1_block sha1_init (sha1_pad [0x61, 0x62, 0x63]) =
     (norm32 (0x67452301 + 1112808245), norm32 (0xEFCDAB89 + 1463342561),
      norm32 (0x98BADCFE + 562251891), norm32 (0x10325476 + 1746824694),
      norm32 (0xC3D2E1F0 + 3640522413))"
  unfolding sha1_block_def sha1_abc_words
  by (simp add: sha1_abc_rounds norm32_def) (simp add: sha1_init_def)

lemma sha1_abc: "sha1_hex [0x61, 0x62, 0x63] = ''a9993e364706816aba3e25717850c26c9cd0d89d''"
proof -
  have "length (sha1_pad [0x61, 0x62, 0x63]) = 64"
    by (simp add: sha1_pad_def len_bytes_def)
  then have "chunks 64 (length (sha1_pad [0x61, 0x62, 0x63]) div 64)
          (sha1_pad [0x61, 0x62, 0x63]) = [sha1_pad [0x61, 0x62, 0x63]]"
    by simp
  then have "sha1 [0x61, 0x62, 0x63] =
      (case sha1_block sha1_init (sha1_pad [0x61, 0x62, 0x63]) of (h0, h1, h2, h3, h4) \<Rightarrow>
         word_bytes h0 @ word_bytes h1 @ word_bytes h2 @ word_bytes h3 @ word_bytes h4)"
    by (simp add: sha1_def Let_def)
  then show ?thesis
    unfolding sha1_hex_def
    by (simp add: sha1_abc_block norm32_simps word_bytes_def hex_of_bytes_def
          hex_byte_def hex_digit_def hex_chars_def)
qed

section \<open>The extraction loops\<close>

lemma memcpy_Some:
  assumes "memcpy (map Some wr @ replicate r None) (length wr) src sp w = Some mem1"
  shows "w \<le> r \<and> length (take w (drop (nat sp) src)) = w \<and>
         mem1 = map Some (wr @ take w (drop (nat sp) src)) @ replicate (r - w) None"
  using assms
  by (auto simp: memcpy_def read_row_def split: if_splits)

lemma copy_rows_Some:
  "copy_rows k src stride w sp (length wr, map Some wr @ replicate r None) = Some (d', mem') \<Longrightarrow>
     k * w \<le> r \<and> length (rows_of k src stride w sp) = k * w \<and> d' = length wr + k * w \<and>
     mem' = map Some (wr @ rows_of k src stride w sp) @ replicate (r - k * w) None"
proof (induction k arbitrary: wr r sp)
  case 0
  then show ?case by simp
next
  case (Suc k)
  let ?bs = "take w (drop (nat sp) src)"
  from Suc.prems obtain mem1 where
    m: "memcpy (map Some wr @ replicate r None) (length wr) src sp w = Some mem1" and
    rest: "copy_rows k src stride w (sp + stride) (length wr + w, mem1) = Some (d', mem')"
    by (auto split: option.splits)
  from memcpy_Some [OF m] have w: "w \<le> r" and len: "length ?bs = w" and
    mem1: "mem1 = map Some (wr @ ?bs) @ replicate (r - w) None"
    by simp_all
  from rest have "copy_rows k src stride w (sp + stride)
      (length (wr @ ?bs), map Some (wr @ ?bs) @ replicate (r - w) None) = Some (d', mem')"
    using len mem1 by simp
  from Suc.IH [OF this] w len show ?case
    by (auto simp: algebra_simps)
qed

lemma those_eq_Some: "those xs = Some ys \<longleftrightarrow> xs = map Some ys"
  by (induction xs arbitrary: ys) (auto split: option.splits)

lemma read_range_Some:
  assumes "read_range (map Some xs @ replicate r None) off n = Some bs"
  shows "bs = take n (drop off xs) \<and> length bs = n"
proof -
  let ?mem = "map Some xs @ replicate r None"
  from assms have bound: "off + n \<le> length ?mem" and
    eq: "take n (drop off ?mem) = map Some bs"
    by (auto simp: read_range_def those_eq_Some split: if_splits)
  from eq have "length (take n (drop off ?mem)) = length bs" by simp
  with bound have len: "length bs = n" by simp
  have inside: "off + i < length xs" if "i < n" for i
  proof (rule ccontr)
    assume "\<not> off + i < length xs"
    with bound that have "take n (drop off ?mem) ! i = None"
      by (auto simp: nth_append)
    with eq that len show False by simp
  qed
  have "bs ! i = take n (drop off xs) ! i" if "i < n" for i
  proof -
    from that bound have "take n (drop off ?mem) ! i = Some (xs ! (off + i))"
      using inside [OF that] by (auto simp: nth_append)
    with eq that len have "Some (bs ! i) = Some (xs ! (off + i))" by simp
    with that inside [OF that] show ?thesis by simp
  qed
  moreover have "length (take n (drop off xs)) = n"
  proof (cases n)
    case 0 then show ?thesis by simp
  next
    case (Suc m)
    with inside [of m] have "off + n \<le> length xs" by simp
    then show ?thesis by simp
  qed
  ultimately have "bs = take n (drop off xs)"
    using len by (simp add: list_eq_iff_nth_eq)
  with len show ?thesis by simp
qed


lemma unat_half: "unat (x div 2 :: 32 word) = unat x div 2"
  by (simp add: unat_div)

lemma render_plane_Inl:
  "render_plane cs sink frame width height Y U V plane (d, mem, evs) = Inl e \<Longrightarrow> e = evs"
  by (auto simp: render_plane_def split: prod.splits option.splits if_splits)

lemma render_plane_Inr:
  assumes "render_plane cs sink frame width height Y U V plane
             (length wr, map Some wr @ replicate r None, evs) = Inr (d', mem', evs')"
    and "get_plane_width_and_height plane width height = (w, h)"
    and "pb = rows_of (unat h) (frame_data frame (unat plane))
                (frame_stride frame (unat plane)) (unat w) 0"
  shows "length pb = unat h * unat w" and "length pb \<le> r"
    and "d' = length wr + length pb"
    and "mem' = map Some (wr @ pb) @ replicate (r - length pb) None"
    and "\<not> plane_checksum sink \<Longrightarrow> evs' = evs"
    and "plane_checksum sink \<Longrightarrow>
           \<exists>pp n. plane_slice (vinfo_format (vinfo sink)) plane Y U V = Some (pp, n) \<and>
                  evs' = evs @ [Print (cs (checksum_type sink)
                                  (take (unat n) (drop pp (wr @ pb))) @ ''  '')]"
proof -
  from assms(1,2) obtain d1 mem1 where
    c: "copy_rows (unat h) (frame_data frame (unat plane)) (frame_stride frame (unat plane))
          (unat w) 0 (length wr, map Some wr @ replicate r None) = Some (d1, mem1)"
    by (auto simp: render_plane_def split: option.splits)
  from copy_rows_Some [OF c] assms(3) have
    len: "length pb = unat h * unat w" and r: "length pb \<le> r" and
    d1: "d1 = length wr + length pb" and
    mem1: "mem1 = map Some (wr @ pb) @ replicate (r - length pb) None"
    by simp_all
  from assms(1,2) c have same: "d' = d1 \<and> mem' = mem1"
    by (auto simp: render_plane_def split: option.splits if_splits)
  show "length pb = unat h * unat w" by (rule len)
  show "length pb \<le> r" by (rule r)
  show "d' = length wr + length pb" using same d1 by simp
  show "mem' = map Some (wr @ pb) @ replicate (r - length pb) None" using same mem1 by simp
  show "evs' = evs" if "\<not> plane_checksum sink"
    using that assms(1,2) c by (simp add: render_plane_def)
  show "\<exists>pp n. plane_slice (vinfo_format (vinfo sink)) plane Y U V = Some (pp, n) \<and>
                  evs' = evs @ [Print (cs (checksum_type sink)
                                  (take (unat n) (drop pp (wr @ pb))) @ ''  '')]"
    if "plane_checksum sink"
  proof -
    from that assms(1,2) c obtain pp n bytes where
      sl: "plane_slice (vinfo_format (vinfo sink)) plane Y U V = Some (pp, n)" and
      rd: "read_range mem1 pp (unat n) = Some bytes" and
      ev: "evs' = evs @ [Print (cs (checksum_type sink) bytes @ ''  '')]"
      by (auto simp: render_plane_def split: option.splits)
    from rd mem1 have "bytes = take (unat n) (drop pp (wr @ pb))"
      using read_range_Some by blast
    with sl ev show ?thesis by simp
  qed
qed

lemma plane_loop_3:
  "plane_loop body 3 p st = Inr st3 \<longleftrightarrow>
     (\<exists>st1 st2. body p st = Inr st1 \<and> body (p + 1) st1 = Inr st2 \<and> body (p + 1 + 1) st2 = Inr st3)"
  by (auto simp: numeral_3_eq_3 split: sum.splits)

lemma sizes_exact:
  fixes width height :: guint
  assumes "unat width * unat height + 2 * ((unat width div 2) * (unat height div 2))
             \<le> unat (width * height + (width div 2) * (height div 2) + (width div 2) * (height div 2))"
  shows "unat (width * height) = unat width * unat height"
    and "unat ((width div 2) * (height div 2)) = (unat width div 2) * (unat height div 2)"
    and "unat (width * height + (width div 2) * (height div 2) + (width div 2) * (height div 2))
           = unat width * unat height + 2 * ((unat width div 2) * (unat height div 2))"
proof -
  let ?A = "unat width * unat height"
  let ?B = "(unat width div 2) * (unat height div 2)"
  let ?sz = "width * height + (width div 2) * (height div 2) + (width div 2) * (height div 2)"
  have lt: "unat ?sz < 2 ^ 32"
    using unsigned_less [of ?sz] by simp
  with assms have tot: "?A + 2 * ?B < 2 ^ 32" by simp
  then have A: "?A < 2 ^ 32" and B: "?B < 2 ^ 32" by simp_all
  show Y: "unat (width * height) = ?A"
    using A unat_mult_lem [of width height] by simp
  show U: "unat ((width div 2) * (height div 2)) = ?B"
    using B unat_mult_lem [of "width div 2" "height div 2"] by (simp add: unat_half)
  from tot Y U have "unat (width * height) + unat ((width div 2) * (height div 2))
      < 2 ^ LENGTH(32)"
    by simp
  from unat_add_lem [THEN iffD1, OF this] Y U
  have YU: "unat (width * height + (width div 2) * (height div 2)) = ?A + ?B"
    by (simp only:)
  from tot YU U have "unat (width * height + (width div 2) * (height div 2)) +
      unat ((width div 2) * (height div 2)) < 2 ^ LENGTH(32)"
    by simp
  from unat_add_lem [THEN iffD1, OF this] YU U
  have "unat ?sz = ?A + ?B + ?B"
    by (simp only:)
  then show "unat ?sz = ?A + 2 * ?B"
    by (simp only: mult_2 add.assoc)
qed


lemma planes_Inr:
  fixes width height :: guint
  defines "Y \<equiv> width * height"
    and "U \<equiv> (width div 2) * (height div 2)"
  assumes loop: "plane_loop (render_plane cs sink frame width height Y U U) 3 0
                   (0, g_malloc (Y + U + U), evs0) = Inr (d, mem, evs)"
    and fmt: "vinfo_format (vinfo sink) = GST_VIDEO_FORMAT_I420 \<or>
              vinfo_format (vinfo sink) = GST_VIDEO_FORMAT_YV12"
    and pb: "pb = plane_bytes (frame_data frame) (frame_stride frame) width height"
  shows "unat Y = unat width * unat height"
    and "unat U = (unat width div 2) * (unat height div 2)"
    and "unat (Y + U + U) = unat width * unat height + 2 * ((unat width div 2) * (unat height div 2))"
    and "length (pb 0) = unat Y" and "length (pb 1) = unat U" and "length (pb 2) = unat U"
    and "d = unat (Y + U + U)"
    and "mem = map Some (pb 0 @ pb 1 @ pb 2)"
    and "evs = evs0 @ (if plane_checksum sink
                       then [Print (cs (checksum_type sink) (pb 0) @ ''  ''),
                             Print (cs (checksum_type sink) (pb 1) @ ''  ''),
                             Print (cs (checksum_type sink) (pb 2) @ ''  '')]
                       else [])"
proof -
  let ?body = "render_plane cs sink frame width height Y U U"
  let ?cap = "unat (Y + U + U)"
  from loop obtain d1 m1 e1 d2 m2 e2 where
    s1: "?body 0 (0, g_malloc (Y + U + U), evs0) = Inr (d1, m1, e1)" and
    s2: "?body 1 (d1, m1, e1) = Inr (d2, m2, e2)" and
    s3: "?body 2 (d2, m2, e2) = Inr (d, mem, evs)"
    by (auto simp: plane_loop_3)
  have g0: "get_plane_width_and_height 0 width height = (width, height)"
    and g1: "get_plane_width_and_height 1 width height = (width div 2, height div 2)"
    and g2: "get_plane_width_and_height 2 width height = (width div 2, height div 2)"
    by (simp_all add: get_plane_width_and_height_def)
  have p0: "pb 0 = rows_of (unat height) (frame_data frame (unat (0::guint)))
              (frame_stride frame (unat (0::guint))) (unat width) 0"
    and p1: "pb 1 = rows_of (unat (height div 2)) (frame_data frame (unat (1::guint)))
              (frame_stride frame (unat (1::guint))) (unat (width div 2)) 0"
    and p2: "pb 2 = rows_of (unat (height div 2)) (frame_data frame (unat (2::guint)))
              (frame_stride frame (unat (2::guint))) (unat (width div 2)) 0"
    by (simp_all add: pb plane_bytes_def g0 g1 g2)
  from s1 have s1': "?body 0 (length ([]::guint8 list), map Some [] @ replicate ?cap None, evs0)
      = Inr (d1, m1, e1)"
    by (simp add: g_malloc_def)
  note r1 = render_plane_Inr [OF s1' g0 p0]
  have l0: "length (pb 0) = unat height * unat width" and c0: "length (pb 0) \<le> ?cap"
    and d1: "d1 = length (pb 0)"
    and m1: "m1 = map Some (pb 0) @ replicate (?cap - length (pb 0)) None"
    using r1(1-4) by simp_all
  from s2 d1 m1 have s2': "?body 1 (length (pb 0), map Some (pb 0) @
      replicate (?cap - length (pb 0)) None, e1) = Inr (d2, m2, e2)"
    by simp
  note r2 = render_plane_Inr [OF s2' g1 p1]
  have l1: "length (pb 1) = unat (height div 2) * unat (width div 2)"
    and c1: "length (pb 1) \<le> ?cap - length (pb 0)"
    and d2: "d2 = length (pb 0 @ pb 1)"
    and m2: "m2 = map Some (pb 0 @ pb 1) @
               replicate (?cap - length (pb 0) - length (pb 1)) None"
    using r2(1-4) by simp_all
  from s3 d2 m2 have s3': "?body 2 (length (pb 0 @ pb 1), map Some (pb 0 @ pb 1) @
      replicate (?cap - length (pb 0) - length (pb 1)) None, e2) = Inr (d, mem, evs)"
    by simp
  note r3 = render_plane_Inr [OF s3' g2 p2]
  have l2: "length (pb 2) = unat (height div 2) * unat (width div 2)"
    and c2: "length (pb 2) \<le> ?cap - length (pb 0) - length (pb 1)"
    and d: "d = length (pb 0 @ pb 1) + length (pb 2)"
    and mem: "mem = map Some ((pb 0 @ pb 1) @ pb 2) @
               replicate (?cap - length (pb 0) - length (pb 1) - length (pb 2)) None"
    using r3(1-4) by simp_all
  have "length (pb 0) + length (pb 1) + length (pb 2) \<le> ?cap"
    using c0 c1 c2 by arith
  then have "unat width * unat height + 2 * ((unat width div 2) * (unat height div 2)) \<le> ?cap"
    by (simp only: l0 l1 l2 unat_half mult.commute [of "unat height"]
          mult.commute [of "unat height div 2"] mult_2 add.assoc)
  then have ex: "unat width * unat height + 2 * ((unat width div 2) * (unat height div 2))
     \<le> unat (width * height + (width div 2) * (height div 2) + (width div 2) * (height div 2))"
    by (simp add: Y_def U_def)
  show Y: "unat Y = unat width * unat height"
    unfolding Y_def by (rule sizes_exact(1) [OF ex])
  show U: "unat U = (unat width div 2) * (unat height div 2)"
    unfolding U_def by (rule sizes_exact(2) [OF ex])
  show tot: "unat (Y + U + U) = unat width * unat height + 2 * ((unat width div 2) * (unat height div 2))"
    unfolding Y_def U_def by (rule sizes_exact(3) [OF ex])
  show L0: "length (pb 0) = unat Y" using l0 Y by (simp add: mult.commute)
  show L1: "length (pb 1) = unat U" using l1 U by (simp add: unat_half mult.commute)
  show L2: "length (pb 2) = unat U" using l2 U by (simp add: unat_half mult.commute)
  show "d = unat (Y + U + U)" using d L0 L1 L2 tot Y U by simp
  show "mem = map Some (pb 0 @ pb 1 @ pb 2)" using mem L0 L1 L2 tot Y U by simp
  show "evs = evs0 @ (if plane_checksum sink
                       then [Print (cs (checksum_type sink) (pb 0) @ ''  ''),
                             Print (cs (checksum_type sink) (pb 1) @ ''  ''),
                             Print (cs (checksum_type sink) (pb 2) @ ''  '')]
                       else [])"
  proof (cases "plane_checksum sink")
    case False
    with r1(5) r2(5) r3(5) show ?thesis by simp
  next
    case True
    from r1(6) [OF True] L0 have "e1 = evs0 @ [Print (cs (checksum_type sink) (pb 0) @ ''  '')]"
      by (auto simp: plane_slice_def)
    moreover from r2(6) [OF True] fmt L0 L1
    have "e2 = e1 @ [Print (cs (checksum_type sink) (pb 1) @ ''  '')]"
      by (auto simp: plane_slice_def)
    moreover from r3(6) [OF True] fmt L0 L1 L2
    have "evs = e2 @ [Print (cs (checksum_type sink) (pb 2) @ ''  '')]"
      by (auto simp: plane_slice_def)
    ultimately show ?thesis using True by simp
  qed
qed

section \<open>A call that returns normally\<close>

lemma read_range_all:
  "read_range (map Some xs) 0 (length xs) = Some bs \<Longrightarrow> bs = xs"
  using read_range_Some [of xs 0 0 "length xs" bs] by simp

lemma render_OK:
  assumes ok: "gst_checksum_sink_render cs sink buffer = (sink', GST_FLOW_OK, evs)"
    and wh: "frame_width_height sink buffer = (width, height)"
    and pb: "pb = plane_bytes (plane_data buffer) (plane_stride buffer) width height"
  shows "vinfo_format (vinfo sink) = GST_VIDEO_FORMAT_I420 \<or>
         vinfo_format (vinfo sink) = GST_VIDEO_FORMAT_YV12"
    and "readable buffer"
    and "sink' = sink"
    and "unat (width * height) = unat width * unat height"
    and "unat ((width div 2) * (height div 2)) = (unat width div 2) * (unat height div 2)"
    and "unat (width * height + (width div 2) * (height div 2) + (width div 2) * (height div 2))
           = unat width * unat height + 2 * ((unat width div 2) * (unat height div 2))"
    and "length (pb 0) = unat width * unat height"
    and "length (pb 1) = (unat width div 2) * (unat height div 2)"
    and "length (pb 2) = (unat width div 2) * (unat height div 2)"
    and "evs = [FrameMap True,
                Malloc (unat width * unat height + 2 * ((unat width div 2) * (unat height div 2)))] @
               (if plane_checksum sink
                then [Print (cs (checksum_type sink) (pb 0) @ ''  ''),
                      Print (cs (checksum_type sink) (pb 1) @ ''  ''),
                      Print (cs (checksum_type sink) (pb 2) @ ''  ''),
                      Print newline]
                else [Print (''FrameChecksum '' @
                             cs (checksum_type sink) (pb 0 @ pb 1 @ pb 2) @ newline)]) @
               [Free 0 (map Some (pb 0 @ pb 1 @ pb 2)), FrameUnmap]"
proof -
  define Y where "Y = width * height"
  define U where "U = (width div 2) * (height div 2)"
  define sz where "sz = Y + U + U"
  let ?frame = "\<lparr>n_planes = 3, frame_data = plane_data buffer,
                  frame_stride = plane_stride buffer\<rparr>"
  let ?evs0 = "[FrameMap True, Malloc (unat sz)]"
  note ok1 = ok [unfolded gst_checksum_sink_render_def wh prod.case Let_def,
                 folded Y_def U_def, folded sz_def]
  show fmt: "vinfo_format (vinfo sink) = GST_VIDEO_FORMAT_I420 \<or>
         vinfo_format (vinfo sink) = GST_VIDEO_FORMAT_YV12"
    using ok1 by (auto split: if_splits)
  show rd: "readable buffer"
    using ok1 fmt by (auto simp: gst_video_frame_map_def split: if_splits)
  show "sink' = sink"
    using ok1 by (auto split: if_splits option.splits sum.splits prod.splits)
  from fmt rd have fm: "gst_video_frame_map (vinfo sink) buffer = Some ?frame"
    by (auto simp: gst_video_frame_map_def format_n_planes_def)
  from ok1 fmt fm obtain d mem evs1 where
    loop: "plane_loop (render_plane cs sink ?frame width height Y U U) 3 0
             (0, g_malloc sz, ?evs0) = Inr (d, mem, evs1)"
    by (auto split: sum.splits)
  have pb': "pb = plane_bytes (frame_data ?frame) (frame_stride ?frame) width height"
    using pb by simp
  note P = planes_Inr [OF loop [unfolded sz_def Y_def U_def] fmt pb', folded Y_def U_def,
                       folded sz_def]
  show Y: "unat (width * height) = unat width * unat height"
    using P(1) by (simp only: Y_def)
  show U: "unat ((width div 2) * (height div 2)) = (unat width div 2) * (unat height div 2)"
    using P(2) by (simp only: U_def)
  have tot: "unat sz = unat width * unat height + 2 * ((unat width div 2) * (unat height div 2))"
    by (rule P(3))
  then show "unat (width * height + (width div 2) * (height div 2) + (width div 2) * (height div 2))
           = unat width * unat height + 2 * ((unat width div 2) * (unat height div 2))"
    by (simp only: sz_def Y_def U_def)
  show L0: "length (pb 0) = unat width * unat height" using P(4) P(1) by simp
  show L1: "length (pb 1) = (unat width div 2) * (unat height div 2)" using P(5) P(2) by simp
  show L2: "length (pb 2) = (unat width div 2) * (unat height div 2)" using P(6) P(2) by simp
  show "evs = [FrameMap True,
                Malloc (unat width * unat height + 2 * ((unat width div 2) * (unat height div 2)))] @
               (if plane_checksum sink
                then [Print (cs (checksum_type sink) (pb 0) @ ''  ''),
                      Print (cs (checksum_type sink) (pb 1) @ ''  ''),
                      Print (cs (checksum_type sink) (pb 2) @ ''  ''),
                      Print newline]
                else [Print (''FrameChecksum '' @
                             cs (checksum_type sink) (pb 0 @ pb 1 @ pb 2) @ newline)]) @
               [Free 0 (map Some (pb 0 @ pb 1 @ pb 2)), FrameUnmap]"
  proof (cases "plane_checksum sink")
    case True
    with ok1 fmt fm loop have "evs = evs1 @ [Print newline, Free 0 mem, FrameUnmap]"
      by auto
    with P(8) P(9) True tot show ?thesis by simp
  next
    case False
    with ok1 fmt fm loop obtain bytes where
      r: "read_range mem 0 (unat sz) = Some bytes" and
      e: "evs = evs1 @ [Print (''FrameChecksum '' @ cs (checksum_type sink) bytes @ newline),
                        Free 0 mem, FrameUnmap]"
      by (auto split: option.splits)
    have "length (pb 0 @ pb 1 @ pb 2) = unat sz"
      using L0 L1 L2 tot by simp
    with r P(8) have "bytes = pb 0 @ pb 1 @ pb 2"
      using read_range_all [of "pb 0 @ pb 1 @ pb 2" bytes] by simp
    with e P(8) P(9) False tot show ?thesis by simp
  qed
qed

text \<open>
  When the packed byte count does not fit in 32 bits the call cannot return normally:
  the allocation is too small for the bytes the row loop writes.
\<close>

lemma render_overflow_not_OK:
  assumes wh: "frame_width_height sink buffer = (width, height)"
    and over: "2 ^ 32 \<le> unat width * unat height +
                 2 * ((unat width div 2) * (unat height div 2))"
  shows "fst (snd (gst_checksum_sink_render cs sink buffer)) \<noteq> GST_FLOW_OK"
proof
  assume ok: "fst (snd (gst_checksum_sink_render cs sink buffer)) = GST_FLOW_OK"
  obtain sink' r evs where res: "gst_checksum_sink_render cs sink buffer = (sink', r, evs)"
    by (cases "gst_checksum_sink_render cs sink buffer")
  with ok have "gst_checksum_sink_render cs sink buffer = (sink', GST_FLOW_OK, evs)"
    by simp
  from render_OK(6) [OF this wh refl] over
  have "2 ^ 32 \<le> unat (width * height + (width div 2) * (height div 2) +
                      (width div 2) * (height div 2))"
    by (simp only:)
  moreover have "unat (width * height + (width div 2) * (height div 2) +
                      (width div 2) * (height div 2)) < 2 ^ 32"
    using unsigned_less [of "width * height + (width div 2) * (height div 2) +
                      (width div 2) * (height div 2)"] by simp
  ultimately show False by simp
qed

section \<open>The three ways a call can go\<close>




lemma render_unsupported:
  assumes "vinfo_format (vinfo sink) \<noteq> GST_VIDEO_FORMAT_I420"
    and "vinfo_format (vinfo sink) \<noteq> GST_VIDEO_FORMAT_YV12"
  shows "gst_checksum_sink_render cs sink buffer = (sink, GST_FLOW_ERROR, [])"
  using assms by (simp add: gst_checksum_sink_render_def split: prod.splits)

lemma render_unmapped:
  assumes "vinfo_format (vinfo sink) = GST_VIDEO_FORMAT_I420 \<or>
           vinfo_format (vinfo sink) = GST_VIDEO_FORMAT_YV12"
    and "\<not> readable buffer"
  shows "gst_checksum_sink_render cs sink buffer = (sink, ASSERT_NOT_REACHED, [FrameMap False])"
  using assms
  by (auto simp: gst_checksum_sink_render_def gst_video_frame_map_def Let_def split: prod.splits)

lemma render_mapped:
  assumes fmt: "vinfo_format (vinfo sink) = GST_VIDEO_FORMAT_I420 \<or>
           vinfo_format (vinfo sink) = GST_VIDEO_FORMAT_YV12"
    and rd: "readable buffer"
    and wh: "frame_width_height sink buffer = (width, height)"
    and Y: "Y = width * height"
    and U: "U = (width div 2) * (height div 2)"
    and sz: "sz = Y + U + U"
  shows "gst_checksum_sink_render cs sink buffer =
      (case plane_loop
              (render_plane cs sink
                 \<lparr>n_planes = 3, frame_data = plane_data buffer,
                    frame_stride = plane_stride buffer\<rparr> width height Y U U) 3 0
              (0, g_malloc sz, [FrameMap True, Malloc (unat sz)]) of
         Inl evs \<Rightarrow> (sink, INVALID_MEMORY_ACCESS, evs)
       | Inr (d, mem, evs) \<Rightarrow>
           if plane_checksum sink
           then (sink, GST_FLOW_OK, evs @ [Print newline, Free 0 mem, FrameUnmap])
           else (case read_range mem 0 (unat sz) of
                   None \<Rightarrow> (sink, INVALID_MEMORY_ACCESS, evs)
                 | Some bytes \<Rightarrow>
                     (sink, GST_FLOW_OK,
                      evs @ [Print (''FrameChecksum '' @ cs (checksum_type sink) bytes @ newline),
                             Free 0 mem, FrameUnmap])))"
proof -
  from fmt rd have fm: "gst_video_frame_map (vinfo sink) buffer =
      Some \<lparr>n_planes = 3, frame_data = plane_data buffer, frame_stride = plane_stride buffer\<rparr>"
    by (auto simp: gst_video_frame_map_def format_n_planes_def)
  have ok: "\<not> (vinfo_format (vinfo sink) \<noteq> GST_VIDEO_FORMAT_I420 \<and>
               vinfo_format (vinfo sink) \<noteq> GST_VIDEO_FORMAT_YV12)"
    using fmt by blast
  show ?thesis
    unfolding gst_checksum_sink_render_def wh prod.case Let_def fm option.case Y U sz
    by (simp only: ok if_False GstVideoFrame.simps unat_numeral) simp
qed

lemma render_plane_sink_cong:
  assumes "plane_checksum s1 = plane_checksum s2"
    and "checksum_type s1 = checksum_type s2"
    and "vinfo_format (vinfo s1) = vinfo_format (vinfo s2)"
  shows "render_plane cs s1 = render_plane cs s2"
  using assms by (intro ext) (simp add: render_plane_def split: prod.splits option.splits)

lemma render_sink_unchanged: "fst (gst_checksum_sink_render cs sink buffer) = sink"
proof -
  obtain width height where wh: "frame_width_height sink buffer = (width, height)"
    by (cases "frame_width_height sink buffer")
  consider
    (unsupported) "vinfo_format (vinfo sink) \<noteq> GST_VIDEO_FORMAT_I420"
                  "vinfo_format (vinfo sink) \<noteq> GST_VIDEO_FORMAT_YV12"
  | (unmapped) "vinfo_format (vinfo sink) = GST_VIDEO_FORMAT_I420 \<or>
                vinfo_format (vinfo sink) = GST_VIDEO_FORMAT_YV12" "\<not> readable buffer"
  | (mapped) "vinfo_format (vinfo sink) = GST_VIDEO_FORMAT_I420 \<or>
              vinfo_format (vinfo sink) = GST_VIDEO_FORMAT_YV12" "readable buffer"
    by blast
  then show ?thesis
  proof cases
    case unsupported
    then show ?thesis by (simp add: render_unsupported)
  next
    case unmapped
    then show ?thesis by (simp add: render_unmapped)
  next
    case mapped
    show ?thesis
      by (simp add: render_mapped [OF mapped wh refl refl refl]
            split: sum.splits prod.splits option.splits)
  qed
qed

lemma render_crop:
  assumes c: "crop_meta buffer = Some crop"
  shows "snd (gst_checksum_sink_render cs sink buffer) =
         snd (gst_checksum_sink_render cs
                (sink\<lparr>vinfo := (vinfo sink)\<lparr>vinfo_width := crop_width crop,
                                               vinfo_height := crop_height crop\<rparr>\<rparr>)
                (buffer\<lparr>crop_meta := None\<rparr>))"
proof -
  let ?sink = "sink\<lparr>vinfo := (vinfo sink)\<lparr>vinfo_width := crop_width crop,
                                               vinfo_height := crop_height crop\<rparr>\<rparr>"
  let ?buffer = "buffer\<lparr>crop_meta := None\<rparr>"
  have wh: "frame_width_height sink buffer = (crop_width crop, crop_height crop)"
    using c by (simp add: frame_width_height_def)
  have wh': "frame_width_height ?sink ?buffer = (crop_width crop, crop_height crop)"
    by (simp add: frame_width_height_def)
  have rp: "render_plane cs ?sink = render_plane cs sink"
    by (rule render_plane_sink_cong) simp_all
  consider
    (unsupported) "vinfo_format (vinfo sink) \<noteq> GST_VIDEO_FORMAT_I420"
                  "vinfo_format (vinfo sink) \<noteq> GST_VIDEO_FORMAT_YV12"
  | (unmapped) "vinfo_format (vinfo sink) = GST_VIDEO_FORMAT_I420 \<or>
                vinfo_format (vinfo sink) = GST_VIDEO_FORMAT_YV12" "\<not> readable buffer"
  | (mapped) "vinfo_format (vinfo sink) = GST_VIDEO_FORMAT_I420 \<or>
              vinfo_format (vinfo sink) = GST_VIDEO_FORMAT_YV12" "readable buffer"
    by blast
  then show ?thesis
  proof cases
    case unsupported
    then show ?thesis by (simp add: render_unsupported)
  next
    case unmapped
    then show ?thesis by (simp add: render_unmapped)
  next
    case mapped
    from mapped have m1: "vinfo_format (vinfo ?sink) = GST_VIDEO_FORMAT_I420 \<or>
              vinfo_format (vinfo ?sink) = GST_VIDEO_FORMAT_YV12"
      and m2: "readable ?buffer"
      by simp_all
    show ?thesis
      by (simp add: render_mapped [OF mapped wh refl refl refl]
            render_mapped [OF m1 m2 wh' refl refl refl] rp
            split: sum.splits prod.splits option.splits)
  qed
qed

section \<open>A per-plane call on a well-formed frame returns normally\<close>

text \<open>
  The other direction: when every row of every plane lies inside its plane's bytes and
  the packed byte count fits in 32 bits, the row loops and the digest reads succeed, and
  the call returns \<open>GST_FLOW_OK\<close> with the three plane digests.
\<close>

lemma those_map_Some: "those (map Some ys) = Some ys"
  by (induction ys) simp_all

lemma read_range_written:
  assumes "off + n \<le> length xs"
  shows "read_range (map Some xs @ replicate r None) off n = Some (take n (drop off xs))"
proof -
  from assms have "take n (drop off (map Some xs @ replicate r None)) =
      map Some (take n (drop off xs))"
    by (simp add: take_map drop_map)
  with assms show ?thesis
    by (simp add: read_range_def those_map_Some)
qed

lemma memcpy_ok:
  assumes "w \<le> r" and "read_row src sp w \<noteq> None"
  shows "memcpy (map Some wr @ replicate r None) (length wr) src sp w =
           Some (map Some (wr @ take w (drop (nat sp) src)) @ replicate (r - w) None)"
    and "length (take w (drop (nat sp) src)) = w"
  using assms by (auto simp: memcpy_def read_row_def split: if_splits)

lemma copy_rows_ok:
  assumes "\<forall>j<k. read_row src (sp + int j * stride) w \<noteq> None" and "k * w \<le> r"
  shows "copy_rows k src stride w sp (length wr, map Some wr @ replicate r None) =
           Some (length wr + k * w,
                 map Some (wr @ rows_of k src stride w sp) @ replicate (r - k * w) None) \<and>
         length (rows_of k src stride w sp) = k * w"
  using assms
proof (induction k arbitrary: wr r sp)
  case 0
  then show ?case by simp
next
  case (Suc k)
  let ?bs = "take w (drop (nat sp) src)"
  have first: "read_row src sp w \<noteq> None"
    using Suc.prems(1) [rule_format, of 0] by simp
  from Suc.prems(2) have w: "w \<le> r" and rest: "k * w \<le> r - w" by simp_all
  note m = memcpy_ok(1) [where wr = wr, OF w first] memcpy_ok(2) [OF w first]
  have rows: "\<forall>j<k. read_row src (sp + stride + int j * stride) w \<noteq> None"
  proof (intro allI impI)
    fix j assume "j < k"
    then have "Suc j < Suc k" by simp
    with Suc.prems(1) have "read_row src (sp + int (Suc j) * stride) w \<noteq> None" by blast
    then show "read_row src (sp + stride + int j * stride) w \<noteq> None"
      by (simp add: algebra_simps)
  qed
  from Suc.IH [where wr = "wr @ ?bs", OF rows rest] m w show ?case
    by (simp add: algebra_simps)
qed

lemma render_plane_ok:
  assumes pc: "plane_checksum sink"
    and gp: "get_plane_width_and_height plane width height = (w, h)"
    and rows: "\<forall>j<unat h. read_row (frame_data frame (unat plane))
                 (int j * frame_stride frame (unat plane)) (unat w) \<noteq> None"
    and cap: "unat h * unat w \<le> r"
    and pb: "pb = rows_of (unat h) (frame_data frame (unat plane))
                (frame_stride frame (unat plane)) (unat w) 0"
    and sl: "plane_slice (vinfo_format (vinfo sink)) plane Y U V = Some (pp, n)"
    and inside: "pp + unat n \<le> length wr + unat h * unat w"
  shows "render_plane cs sink frame width height Y U V plane
           (length wr, map Some wr @ replicate r None, evs) =
         Inr (length wr + length pb, map Some (wr @ pb) @ replicate (r - length pb) None,
              evs @ [Print (cs (checksum_type sink) (take (unat n) (drop pp (wr @ pb))) @ ''  '')])"
    and "length pb = unat h * unat w"
proof -
  from rows have rows': "\<forall>j<unat h. read_row (frame_data frame (unat plane))
                 (0 + int j * frame_stride frame (unat plane)) (unat w) \<noteq> None"
    by simp
  note c = copy_rows_ok [where wr = wr, OF rows' cap, folded pb]
  from c show len: "length pb = unat h * unat w" by simp
  from inside len have "pp + unat n \<le> length (wr @ pb)" by simp
  from read_range_written [OF this]
  have rr: "read_range (map Some (wr @ pb) @ replicate (r - length pb) None) pp (unat n) =
      Some (take (unat n) (drop pp (wr @ pb)))" .
  from c len have c': "copy_rows (unat h) (frame_data frame (unat plane))
      (frame_stride frame (unat plane)) (unat w) 0 (length wr, map Some wr @ replicate r None) =
      Some (length wr + length pb, map Some (wr @ pb) @ replicate (r - length pb) None)"
    by simp
  show "render_plane cs sink frame width height Y U V plane
           (length wr, map Some wr @ replicate r None, evs) =
         Inr (length wr + length pb, map Some (wr @ pb) @ replicate (r - length pb) None,
              evs @ [Print (cs (checksum_type sink) (take (unat n) (drop pp (wr @ pb))) @ ''  '')])"
    unfolding render_plane_def prod.case gp c' option.case sl rr using pc by simp
qed

lemma sizes_fit:
  fixes width height :: guint
  assumes tot: "unat width * unat height + 2 * ((unat width div 2) * (unat height div 2)) < 2 ^ 32"
  shows "unat (width * height) = unat width * unat height"
    and "unat ((width div 2) * (height div 2)) = (unat width div 2) * (unat height div 2)"
    and "unat (width * height + (width div 2) * (height div 2) + (width div 2) * (height div 2))
           = unat width * unat height + 2 * ((unat width div 2) * (unat height div 2))"
proof -
  let ?A = "unat width * unat height"
  let ?B = "(unat width div 2) * (unat height div 2)"
  let ?sz = "width * height + (width div 2) * (height div 2) + (width div 2) * (height div 2)"
  from tot have A: "?A < 2 ^ 32" and B: "?B < 2 ^ 32" by simp_all
  show Y: "unat (width * height) = ?A"
    using A unat_mult_lem [of width height] by simp
  show U: "unat ((width div 2) * (height div 2)) = ?B"
    using B unat_mult_lem [of "width div 2" "height div 2"] by (simp add: unat_half)
  from tot Y U have "unat (width * height) + unat ((width div 2) * (height div 2))
      < 2 ^ LENGTH(32)"
    by simp
  from unat_add_lem [THEN iffD1, OF this] Y U
  have YU: "unat (width * height + (width div 2) * (height div 2)) = ?A + ?B"
    by (simp only:)
  from tot YU U have "unat (width * height + (width div 2) * (height div 2)) +
      unat ((width div 2) * (height div 2)) < 2 ^ LENGTH(32)"
    by simp
  from unat_add_lem [THEN iffD1, OF this] YU U
  have "unat ?sz = ?A + ?B + ?B"
    by (simp only:)
  then show "unat ?sz = ?A + 2 * ?B"
    by (simp only: mult_2 add.assoc)
qed

lemma logical_rows_readable:
  assumes "None \<notin> set (logical_rows buffer width height p)"
    and "get_plane_width_and_height (of_nat p) width height = (w, h)"
  shows "\<forall>j<unat h. read_row (plane_data buffer p) (int j * plane_stride buffer p) (unat w)
           \<noteq> None"
proof (intro allI impI)
  fix j assume "j < unat h"
  then have "read_row (plane_data buffer p) (int j * plane_stride buffer p) (unat w)
      \<in> set (logical_rows buffer width height p)"
    using assms(2) by (simp add: logical_rows_def)
  with assms(1) show "read_row (plane_data buffer p) (int j * plane_stride buffer p) (unat w)
      \<noteq> None"
    by metis
qed

lemma render_planes_success:
  assumes pc: "plane_checksum sink"
    and fmt: "vinfo_format (vinfo sink) = GST_VIDEO_FORMAT_I420 \<or>
              vinfo_format (vinfo sink) = GST_VIDEO_FORMAT_YV12"
    and rd: "readable buffer"
    and wh: "frame_width_height sink buffer = (width, height)"
    and fits: "unat width * unat height + 2 * ((unat width div 2) * (unat height div 2)) < 2 ^ 32"
    and r0: "None \<notin> set (logical_rows buffer width height 0)"
    and r1: "None \<notin> set (logical_rows buffer width height 1)"
    and r2: "None \<notin> set (logical_rows buffer width height 2)"
    and pb: "pb = plane_bytes (plane_data buffer) (plane_stride buffer) width height"
  shows "gst_checksum_sink_render cs sink buffer =
           (sink, GST_FLOW_OK,
            [FrameMap True,
             Malloc (unat width * unat height + 2 * ((unat width div 2) * (unat height div 2))),
             Print (cs (checksum_type sink) (pb 0) @ ''  ''),
             Print (cs (checksum_type sink) (pb 1) @ ''  ''),
             Print (cs (checksum_type sink) (pb 2) @ ''  ''),
             Print newline, Free 0 (map Some (pb 0 @ pb 1 @ pb 2)), FrameUnmap])"
    and "length (pb 0) = unat width * unat height"
    and "length (pb 1) = (unat width div 2) * (unat height div 2)"
    and "length (pb 2) = (unat width div 2) * (unat height div 2)"
proof -
  define Y where "Y = width * height"
  define U where "U = (width div 2) * (height div 2)"
  define sz where "sz = Y + U + U"
  define A where "A = unat width * unat height"
  define B where "B = (unat width div 2) * (unat height div 2)"
  let ?frame = "\<lparr>n_planes = 3, frame_data = plane_data buffer,
                  frame_stride = plane_stride buffer\<rparr>"
  let ?body = "render_plane cs sink ?frame width height Y U U"
  let ?ty = "checksum_type sink"
  note S = sizes_fit [OF fits]
  have uY: "unat Y = A" and uU: "unat U = B" and usz: "unat sz = A + 2 * B"
    using S by (simp_all only: Y_def U_def sz_def A_def B_def)
  have g0: "get_plane_width_and_height 0 width height = (width, height)"
    and g1: "get_plane_width_and_height 1 width height = (width div 2, height div 2)"
    and g2: "get_plane_width_and_height 2 width height = (width div 2, height div 2)"
    by (simp_all add: get_plane_width_and_height_def)
  have q0: "\<forall>j<unat height. read_row (frame_data ?frame (unat (0::guint)))
                 (int j * frame_stride ?frame (unat (0::guint))) (unat width) \<noteq> None"
    using logical_rows_readable [OF r0, of width height] g0 by simp
  have q1: "\<forall>j<unat (height div 2). read_row (frame_data ?frame (unat (1::guint)))
                 (int j * frame_stride ?frame (unat (1::guint))) (unat (width div 2)) \<noteq> None"
    using logical_rows_readable [OF r1, of "width div 2" "height div 2"] g1 by simp
  have q2: "\<forall>j<unat (height div 2). read_row (frame_data ?frame (unat (2::guint)))
                 (int j * frame_stride ?frame (unat (2::guint))) (unat (width div 2)) \<noteq> None"
    using logical_rows_readable [OF r2, of "width div 2" "height div 2"] g2 by simp
  have p0: "pb 0 = rows_of (unat height) (frame_data ?frame (unat (0::guint)))
              (frame_stride ?frame (unat (0::guint))) (unat width) 0"
    and p1: "pb 1 = rows_of (unat (height div 2)) (frame_data ?frame (unat (1::guint)))
              (frame_stride ?frame (unat (1::guint))) (unat (width div 2)) 0"
    and p2: "pb 2 = rows_of (unat (height div 2)) (frame_data ?frame (unat (2::guint)))
              (frame_stride ?frame (unat (2::guint))) (unat (width div 2)) 0"
    by (simp_all add: pb plane_bytes_def g0 g1 g2)
  have hA: "unat height * unat width = A"
    and hB: "unat (height div 2) * unat (width div 2) = B"
    by (simp_all add: A_def B_def unat_half mult.commute)
  have sl0: "plane_slice (vinfo_format (vinfo sink)) 0 Y U U = Some (0, Y)"
    and sl1: "plane_slice (vinfo_format (vinfo sink)) 1 Y U U = Some (unat Y, U)"
    and sl2: "plane_slice (vinfo_format (vinfo sink)) 2 Y U U = Some (unat Y + unat U, U)"
    using fmt by (auto simp: plane_slice_def)
  have c0: "unat height * unat width \<le> A + 2 * B" using hA by simp
  have i0: "0 + unat Y \<le> length ([]::guint8 list) + unat height * unat width"
    using uY hA by simp
  note k0 = render_plane_ok(1) [where cs = cs and evs = "[FrameMap True, Malloc (unat sz)]",
      OF pc g0 q0 c0 p0 sl0 i0] render_plane_ok(2) [OF pc g0 q0 c0 p0 sl0 i0]
  have L0: "length (pb 0) = A" using k0(2) hA by simp
  have s1: "?body 0 (0, g_malloc sz, [FrameMap True, Malloc (unat sz)]) =
      Inr (A, map Some (pb 0) @ replicate (2 * B) None,
           [FrameMap True, Malloc (unat sz), Print (cs ?ty (pb 0) @ ''  '')])"
    using k0(1) L0 uY usz by (simp add: g_malloc_def)
  have c1: "unat (height div 2) * unat (width div 2) \<le> 2 * B" using hB by simp
  have i1: "unat Y + unat U \<le> length (pb 0) + unat (height div 2) * unat (width div 2)"
    using uY uU hB L0 by simp
  note k1 = render_plane_ok(1) [where cs = cs and
      evs = "[FrameMap True, Malloc (unat sz), Print (cs ?ty (pb 0) @ ''  '')]",
      OF pc g1 q1 c1 p1 sl1 i1] render_plane_ok(2) [OF pc g1 q1 c1 p1 sl1 i1]
  have L1: "length (pb 1) = B" using k1(2) hB by simp
  have s2: "?body 1 (A, map Some (pb 0) @ replicate (2 * B) None,
           [FrameMap True, Malloc (unat sz), Print (cs ?ty (pb 0) @ ''  '')]) =
      Inr (A + B, map Some (pb 0 @ pb 1) @ replicate B None,
           [FrameMap True, Malloc (unat sz), Print (cs ?ty (pb 0) @ ''  ''),
            Print (cs ?ty (pb 1) @ ''  '')])"
    using k1(1) L0 L1 uY uU by simp
  have c2: "unat (height div 2) * unat (width div 2) \<le> B" using hB by simp
  have i2: "(unat Y + unat U) + unat U \<le>
      length (pb 0 @ pb 1) + unat (height div 2) * unat (width div 2)"
    using uY uU hB L0 L1 by simp
  note k2 = render_plane_ok(1) [where cs = cs and
      evs = "[FrameMap True, Malloc (unat sz), Print (cs ?ty (pb 0) @ ''  ''),
        Print (cs ?ty (pb 1) @ ''  '')]",
      OF pc g2 q2 c2 p2 sl2 i2] render_plane_ok(2) [OF pc g2 q2 c2 p2 sl2 i2]
  have L2: "length (pb 2) = B" using k2(2) hB by simp
  have s3: "?body 2 (A + B, map Some (pb 0 @ pb 1) @ replicate B None,
           [FrameMap True, Malloc (unat sz), Print (cs ?ty (pb 0) @ ''  ''),
            Print (cs ?ty (pb 1) @ ''  '')]) =
      Inr (A + B + B, map Some (pb 0 @ pb 1 @ pb 2),
           [FrameMap True, Malloc (unat sz), Print (cs ?ty (pb 0) @ ''  ''),
            Print (cs ?ty (pb 1) @ ''  ''), Print (cs ?ty (pb 2) @ ''  '')])"
    using k2(1) L0 L1 L2 uY uU by simp
  have loop: "plane_loop ?body 3 0 (0, g_malloc sz, [FrameMap True, Malloc (unat sz)]) =
      Inr (A + B + B, map Some (pb 0 @ pb 1 @ pb 2),
           [FrameMap True, Malloc (unat sz), Print (cs ?ty (pb 0) @ ''  ''),
            Print (cs ?ty (pb 1) @ ''  ''), Print (cs ?ty (pb 2) @ ''  '')])"
  proof -
    have e: "(0::guint) + 1 = 1" "(1::guint) + 1 = 2" by simp_all
    show ?thesis
      by (simp only: numeral_3_eq_3 plane_loop.simps s1 s2 s3 sum.case e)
  qed
  show "gst_checksum_sink_render cs sink buffer =
           (sink, GST_FLOW_OK,
            [FrameMap True,
             Malloc (unat width * unat height + 2 * ((unat width div 2) * (unat height div 2))),
             Print (cs (checksum_type sink) (pb 0) @ ''  ''),
             Print (cs (checksum_type sink) (pb 1) @ ''  ''),
             Print (cs (checksum_type sink) (pb 2) @ ''  ''),
             Print newline, Free 0 (map Some (pb 0 @ pb 1 @ pb 2)), FrameUnmap])"
    unfolding render_mapped [OF fmt rd wh Y_def U_def sz_def] loop
    using pc usz by (simp add: A_def B_def)
  show "length (pb 0) = unat width * unat height" using L0 by (simp add: A_def)
  show "length (pb 1) = (unat width div 2) * (unat height div 2)" using L1 by (simp add: B_def)
  show "length (pb 2) = (unat width div 2) * (unat height div 2)" using L2 by (simp add: B_def)
qed

section \<open>A failed map is the only event of its call\<close>

lemma render_plane_no_failed_map:
  assumes "FrameMap False \<notin> set evs"
  shows "case render_plane cs sink frame width height Y U V plane (d, mem, evs) of
           Inl e \<Rightarrow> FrameMap False \<notin> set e
         | Inr (d', mem', e) \<Rightarrow> FrameMap False \<notin> set e"
  using assms
  by (auto simp: render_plane_def split: prod.splits option.splits sum.splits)

lemma plane_loop_no_failed_map:
  assumes "FrameMap False \<notin> set evs"
  shows "case plane_loop (render_plane cs sink frame width height Y U V) k plane (d, mem, evs) of
           Inl e \<Rightarrow> FrameMap False \<notin> set e
         | Inr (d', mem', e) \<Rightarrow> FrameMap False \<notin> set e"
  using assms
proof (induction k arbitrary: plane d mem evs)
  case 0
  then show ?case by simp
next
  case (Suc k)
  show ?case
  proof (cases "render_plane cs sink frame width height Y U V plane (d, mem, evs)")
    case (Inl e)
    with render_plane_no_failed_map [OF Suc.prems, of cs sink frame width height Y U V plane d mem]
    show ?thesis by simp
  next
    case (Inr st)
    obtain d1 m1 e1 where st: "st = (d1, m1, e1)" by (cases st)
    with Inr render_plane_no_failed_map [OF Suc.prems, of cs sink frame width height Y U V plane d mem]
    have "FrameMap False \<notin> set e1" by simp
    from Suc.IH [OF this] Inr st show ?thesis by simp
  qed
qed

section \<open>Running the render function on concrete frames\<close>

lemma copy_rows_numeral:
  "copy_rows (numeral k) src stride w sp (d, mem) =
     (case memcpy mem d src sp w of
        None \<Rightarrow> None
      | Some mem' \<Rightarrow> copy_rows (pred_numeral k) src stride w (sp + stride) (d + w, mem'))"
  by (simp add: numeral_eq_Suc)

lemma plane_loop_numeral:
  "plane_loop body (numeral k) plane st =
     (case body plane st of
        Inl evs \<Rightarrow> Inl evs
      | Inr st' \<Rightarrow> plane_loop body (pred_numeral k) (plane + 1) st')"
  by (simp add: numeral_eq_Suc)

lemmas render_eval =
  gst_checksum_sink_render_def frame_width_height_def gst_video_frame_map_def
  format_n_planes_def render_plane_def get_plane_width_and_height_def plane_slice_def
  g_malloc_def memcpy_def read_row_def read_range_def copy_rows_numeral plane_loop_numeral
  replicate_numeral Let_def

lemma scenario_render:
  "gst_checksum_sink_render cs scenario_sink scenario_buffer =
     (scenario_sink, GST_FLOW_OK,
      [FrameMap True, Malloc 24,
       Print (''FrameChecksum '' @ cs G_CHECKSUM_SHA1 (replicate 24 0) @ newline),
       Free 0 (map Some (replicate 24 0)), FrameUnmap])"
  by (simp add: scenario_sink_def scenario_buffer_def render_eval)

lemma plane_scenario_render:
  "gst_checksum_sink_render cs (scenario_sink\<lparr>plane_checksum := True\<rparr>) scenario_buffer =
     (scenario_sink\<lparr>plane_checksum := True\<rparr>, GST_FLOW_OK,
      [FrameMap True, Malloc 24,
       Print (cs G_CHECKSUM_SHA1 (replicate 16 0) @ ''  ''),
       Print (cs G_CHECKSUM_SHA1 (replicate 4 0) @ ''  ''),
       Print (cs G_CHECKSUM_SHA1 (replicate 4 0) @ ''  ''),
       Print newline, Free 0 (map Some (replicate 24 0)), FrameUnmap])"
  by (simp add: scenario_sink_def scenario_buffer_def render_eval)

lemma wide_render:
  "gst_checksum_sink_render cs wide_sink wide_buffer =
     (wide_sink, INVALID_MEMORY_ACCESS, [FrameMap True, Malloc 2])"
  by (simp add: wide_sink_def wide_buffer_def gst_checksum_sink_render_def
        frame_width_height_def gst_video_frame_map_def format_n_planes_def render_plane_def
        get_plane_width_and_height_def g_malloc_def memcpy_def copy_rows_numeral
        plane_loop_numeral Let_def)

lemma scenario_geometry:
  "frame_width_height scenario_sink scenario_buffer = (4, 4)"
  "frame_width_height (scenario_sink\<lparr>plane_checksum := True\<rparr>) scenario_buffer = (4, 4)"
  by (simp_all add: frame_width_height_def scenario_sink_def scenario_buffer_def)

lemma rows_of_numeral:
  "rows_of (numeral k) src stride w sp =
     take w (drop (nat sp) src) @ rows_of (pred_numeral k) src stride w (sp + stride)"
  by (simp add: numeral_eq_Suc)

lemma scenario_planes:
  "plane_bytes (plane_data scenario_buffer) (plane_stride scenario_buffer) 4 4 0 = replicate 16 0"
  "plane_bytes (plane_data scenario_buffer) (plane_stride scenario_buffer) 4 4 1 = replicate 4 0"
  "plane_bytes (plane_data scenario_buffer) (plane_stride scenario_buffer) 4 4 2 = replicate 4 0"
  by (simp_all add: plane_bytes_def get_plane_width_and_height_def scenario_buffer_def
        rows_of_numeral replicate_numeral)

lemma replicate_16_4_4: "replicate 16 x @ replicate 4 x @ replicate 4 x = replicate 24 x"
  by (simp add: replicate_add [symmetric])

lemma gradient_planes:
  "plane_bytes (plane_data gradient_buffer) (plane_stride gradient_buffer) 4 4 0 =
     [1, 2, 3, 4, 5, 6, 7, 8, 9, 10, 11, 12, 13, 14, 15, 16]"
  "plane_bytes (plane_data gradient_buffer) (plane_stride gradient_buffer) 4 4 1 =
     [0x21, 0x22, 0x23, 0x24]"
  "plane_bytes (plane_data gradient_buffer) (plane_stride gradient_buffer) 4 4 2 =
     [0x31, 0x32, 0x33, 0x34]"
  by (simp_all add: plane_bytes_def get_plane_width_and_height_def gradient_buffer_def
        rows_of_numeral)

lemma gradient_rows:
  "None \<notin> set (logical_rows gradient_buffer 4 4 0)"
  "None \<notin> set (logical_rows gradient_buffer 4 4 1)"
  "None \<notin> set (logical_rows gradient_buffer 4 4 2)"
  by (simp_all add: logical_rows_def get_plane_width_and_height_def gradient_buffer_def
        read_row_def upt_conv_Cons)

lemma gradient_geometry:
  "frame_width_height yv12_planes_sink gradient_buffer = (4, 4)"
  "frame_width_height i420_planes_sink gradient_buffer = (4, 4)"
  by (simp_all add: frame_width_height_def yv12_planes_sink_def i420_planes_sink_def
        gradient_buffer_def)

section \<open>Hexadecimal digests\<close>

lemma hex_digit_hex: "hex_digit n \<in> set hex_chars"
proof -
  have "length hex_chars = 16" by (simp add: hex_chars_def)
  then have "n mod 16 < length hex_chars" by simp
  then show ?thesis unfolding hex_digit_def by (rule nth_mem)
qed

lemma is_hex_append: "is_hex (xs @ ys) \<longleftrightarrow> is_hex xs \<and> is_hex ys"
  by (simp add: is_hex_def)

lemma is_hex_hex_byte: "is_hex (hex_byte b)"
  by (simp add: hex_byte_def is_hex_def hex_digit_hex)

lemma is_hex_hex_of_bytes: "is_hex (hex_of_bytes bs)"
proof (induction bs)
  case Nil
  show ?case by (simp add: hex_of_bytes_def is_hex_def)
next
  case (Cons b bs)
  then show ?case by (simp add: hex_of_bytes_def is_hex_append is_hex_hex_byte)
qed

lemma is_hex_sha1_engine: "is_hex (sha1_engine ty bs)"
  by (simp add: sha1_engine_def sha1_hex_def is_hex_hex_of_bytes)

lemma newline_not_hex: "CHR 0x0A \<notin> set hex_chars"
  by (simp add: hex_chars_def)

lemma is_hex_no_newline:
  assumes "is_hex s"
  shows "count_list s (CHR 0x0A) = 0"
proof -
  from assms have "\<forall>c\<in>set s. c \<in> set hex_chars"
    by (simp add: is_hex_def list_all_iff)
  with newline_not_hex have "CHR 0x0A \<notin> set s" by blast
  then show ?thesis by (simp add: count_list_0_iff)
qed

section \<open>The claims\<close>

subsection \<open>C1: the all-zero 4 by 4 I420 frame under SHA-1\<close>

text \<open>
  C1, as the code has it. For the 4 by 4 I420 frame whose every byte is zero, SHA-1 and
  whole-frame mode, the call allocates 16 + 4 + 4 = 24 bytes, digests 24 zero bytes and
  prints one line, \<open>FrameChecksum\<close> followed by the SHA-1 of 24 zero bytes. With an
  engine that computes SHA-1 that digest is
  \<open>d3399b7262fb56cb9ed053d68db9291c410839c4\<close>. (The SHA-1 written out above gives the
  digest of \<open>abc\<close> that FIPS 180 lists: lemma \<open>sha1_abc\<close>.)
\<close>

theorem c1_zero_frame_digest:
  assumes "cs G_CHECKSUM_SHA1 = sha1_hex"
  shows "snd (gst_checksum_sink_render cs scenario_sink scenario_buffer) =
           (GST_FLOW_OK,
            [FrameMap True, Malloc 24,
             Print (''FrameChecksum '' @ cs G_CHECKSUM_SHA1 (replicate 24 0) @ newline),
             Free 0 (map Some (replicate 24 0)), FrameUnmap])
         \<and> printed (snd (snd (gst_checksum_sink_render cs scenario_sink scenario_buffer))) =
             ''FrameChecksum d3399b7262fb56cb9ed053d68db9291c410839c4'' @ newline"
  using assms by (simp add: scenario_render printed_def sha1_zero24)

theorem c1_zero_frame_digest_witness:
  "sha1_engine G_CHECKSUM_SHA1 = sha1_hex \<and>
   printed (snd (snd (gst_checksum_sink_render sha1_engine scenario_sink scenario_buffer))) =
     ''FrameChecksum d3399b7262fb56cb9ed053d68db9291c410839c4'' @ newline"
proof -
  have e: "sha1_engine G_CHECKSUM_SHA1 = sha1_hex"
    by (rule ext) (simp add: sha1_engine_def)
  from c1_zero_frame_digest [of sha1_engine, OF e] e show ?thesis by blast
qed

text \<open>
  The digest the specification gives for this scenario,
  \<open>ef46db3751d8e999000fc2a06d4f1c8500ab0a82\<close>, is not the SHA-1 of 24 zero bytes, and
  it is not what the call prints.
\<close>

theorem c1_spec_digest_counterexample:
  "printed (snd (snd (gst_checksum_sink_render sha1_engine scenario_sink scenario_buffer))) \<noteq>
     ''FrameChecksum ef46db3751d8e999000fc2a06d4f1c8500ab0a82'' @ newline"
  by (simp add: scenario_render printed_def sha1_engine_def sha1_zero24)

subsection \<open>C2: the byte range of each plane digest\<close>

text \<open>
  C2. In per-plane mode, for either supported format, a readable buffer that holds every
  row of its three planes and a packed byte count that fits in 32 bits, the call returns
  \<open>GST_FLOW_OK\<close> and the scratch buffer holds the packed frame: plane 0, then plane 1,
  then plane 2 (it is what \<open>Free\<close> records). The digest printed for plane 0 is taken
  over the bytes [0, Ysize) of it, the one for plane 1 over [Ysize, Ysize + Usize) and the
  one for plane 2 over [Ysize + Usize, Ysize + 2 * Usize), with Ysize = width * height and
  Usize = floor (width / 2) * floor (height / 2) as natural numbers; each range is exactly
  the bytes of its plane. The ranges are the same for I420 and YV12.
\<close>

theorem c2_plane_ranges:
  assumes pc: "plane_checksum sink"
    and fmt: "vinfo_format (vinfo sink) = GST_VIDEO_FORMAT_I420 \<or>
              vinfo_format (vinfo sink) = GST_VIDEO_FORMAT_YV12"
    and rd: "readable buffer"
    and wh: "frame_width_height sink buffer = (width, height)"
    and Ys: "Ysize = unat width * unat height"
    and Us: "Usize = (unat width div 2) * (unat height div 2)"
    and fits: "Ysize + 2 * Usize < 2 ^ 32"
    and r0: "None \<notin> set (logical_rows buffer width height 0)"
    and r1: "None \<notin> set (logical_rows buffer width height 1)"
    and r2: "None \<notin> set (logical_rows buffer width height 2)"
    and pb: "pb = plane_bytes (plane_data buffer) (plane_stride buffer) width height"
    and packed: "packed = pb 0 @ pb 1 @ pb 2"
  shows "gst_checksum_sink_render cs sink buffer =
           (sink, GST_FLOW_OK,
            [FrameMap True, Malloc (Ysize + 2 * Usize),
             Print (cs (checksum_type sink) (take Ysize (drop 0 packed)) @ ''  ''),
             Print (cs (checksum_type sink) (take Usize (drop Ysize packed)) @ ''  ''),
             Print (cs (checksum_type sink) (take Usize (drop (Ysize + Usize) packed)) @ ''  ''),
             Print newline, Free 0 (map Some packed), FrameUnmap]) \<and>
         length packed = Ysize + 2 * Usize \<and>
         take Ysize (drop 0 packed) = pb 0 \<and>
         take Usize (drop Ysize packed) = pb 1 \<and>
         take Usize (drop (Ysize + Usize) packed) = pb 2"
proof -
  from fits have fits': "unat width * unat height +
      2 * ((unat width div 2) * (unat height div 2)) < 2 ^ 32"
    by (simp only: Ys Us)
  note R = render_planes_success [OF pc fmt rd wh fits' r0 r1 r2 pb]
  have l0: "length (pb 0) = Ysize" and l1: "length (pb 1) = Usize" and l2: "length (pb 2) = Usize"
    using R(2,3,4) Ys Us by simp_all
  have s0: "take Ysize (drop 0 packed) = pb 0"
    and s1: "take Usize (drop Ysize packed) = pb 1"
    and s2: "take Usize (drop (Ysize + Usize) packed) = pb 2"
    using l0 l1 l2 by (simp_all add: packed)
  have len: "length packed = Ysize + 2 * Usize"
    using l0 l1 l2 by (simp add: packed)
  have ev: "gst_checksum_sink_render cs sink buffer =
           (sink, GST_FLOW_OK,
            [FrameMap True, Malloc (Ysize + 2 * Usize),
             Print (cs (checksum_type sink) (pb 0) @ ''  ''),
             Print (cs (checksum_type sink) (pb 1) @ ''  ''),
             Print (cs (checksum_type sink) (pb 2) @ ''  ''),
             Print newline, Free 0 (map Some packed), FrameUnmap])"
    using R(1) [of cs] Ys Us packed by simp
  show ?thesis
    unfolding s0 s1 s2 using len ev by blast
qed

theorem c2_plane_ranges_witness:
  "plane_checksum yv12_planes_sink \<and>
   vinfo_format (vinfo yv12_planes_sink) = GST_VIDEO_FORMAT_YV12 \<and>
   plane_checksum i420_planes_sink \<and>
   vinfo_format (vinfo i420_planes_sink) = GST_VIDEO_FORMAT_I420 \<and>
   readable gradient_buffer \<and>
   frame_width_height yv12_planes_sink gradient_buffer = (4, 4) \<and>
   frame_width_height i420_planes_sink gradient_buffer = (4, 4) \<and>
   (16::nat) + 2 * 4 < 2 ^ 32 \<and>
   None \<notin> set (logical_rows gradient_buffer 4 4 0) \<and>
   None \<notin> set (logical_rows gradient_buffer 4 4 1) \<and>
   None \<notin> set (logical_rows gradient_buffer 4 4 2) \<and>
   gst_checksum_sink_render sha1_engine yv12_planes_sink gradient_buffer =
     (yv12_planes_sink, GST_FLOW_OK,
      [FrameMap True, Malloc (16 + 2 * 4),
       Print (sha1_engine G_CHECKSUM_SHA1 (take 16 (drop 0 gradient_packed)) @ ''  ''),
       Print (sha1_engine G_CHECKSUM_SHA1 (take 4 (drop 16 gradient_packed)) @ ''  ''),
       Print (sha1_engine G_CHECKSUM_SHA1 (take 4 (drop (16 + 4) gradient_packed)) @ ''  ''),
       Print newline, Free 0 (map Some gradient_packed), FrameUnmap]) \<and>
   gst_checksum_sink_render sha1_engine i420_planes_sink gradient_buffer =
     (i420_planes_sink, GST_FLOW_OK,
      [FrameMap True, Malloc (16 + 2 * 4),
       Print (sha1_engine G_CHECKSUM_SHA1 (take 16 (drop 0 gradient_packed)) @ ''  ''),
       Print (sha1_engine G_CHECKSUM_SHA1 (take 4 (drop 16 gradient_packed)) @ ''  ''),
       Print (sha1_engine G_CHECKSUM_SHA1 (take 4 (drop (16 + 4) gradient_packed)) @ ''  ''),
       Print newline, Free 0 (map Some gradient_packed), FrameUnmap]) \<and>
   take 16 (drop 0 gradient_packed) = [1, 2, 3, 4, 5, 6, 7, 8, 9, 10, 11, 12, 13, 14, 15, 16] \<and>
   take 4 (drop 16 gradient_packed) = [0x21, 0x22, 0x23, 0x24] \<and>
   take 4 (drop (16 + 4) gradient_packed) = [0x31, 0x32, 0x33, 0x34]"
proof -
  have pcY: "plane_checksum yv12_planes_sink"
    and fY: "vinfo_format (vinfo yv12_planes_sink) = GST_VIDEO_FORMAT_YV12"
    and tY: "checksum_type yv12_planes_sink = G_CHECKSUM_SHA1"
    by (simp_all add: yv12_planes_sink_def)
  have pcI: "plane_checksum i420_planes_sink"
    and fI: "vinfo_format (vinfo i420_planes_sink) = GST_VIDEO_FORMAT_I420"
    and tI: "checksum_type i420_planes_sink = G_CHECKSUM_SHA1"
    by (simp_all add: i420_planes_sink_def)
  have rd: "readable gradient_buffer" by (simp add: gradient_buffer_def)
  have Y: "(16::nat) = unat (4::guint) * unat (4::guint)" by simp
  have U: "(4::nat) = (unat (4::guint) div 2) * (unat (4::guint) div 2)" by simp
  have fits: "(16::nat) + 2 * 4 < 2 ^ 32" by simp
  have p: "gradient_packed =
      plane_bytes (plane_data gradient_buffer) (plane_stride gradient_buffer) 4 4 0 @
      plane_bytes (plane_data gradient_buffer) (plane_stride gradient_buffer) 4 4 1 @
      plane_bytes (plane_data gradient_buffer) (plane_stride gradient_buffer) 4 4 2"
    by (simp add: gradient_planes gradient_packed_def)
  have dY: "vinfo_format (vinfo yv12_planes_sink) = GST_VIDEO_FORMAT_I420 \<or>
            vinfo_format (vinfo yv12_planes_sink) = GST_VIDEO_FORMAT_YV12"
    using fY by simp
  have dI: "vinfo_format (vinfo i420_planes_sink) = GST_VIDEO_FORMAT_I420 \<or>
            vinfo_format (vinfo i420_planes_sink) = GST_VIDEO_FORMAT_YV12"
    using fI by simp
  note yv = c2_plane_ranges [where cs = sha1_engine,
      OF pcY dY rd gradient_geometry(1) Y U fits gradient_rows refl p,
      unfolded gradient_planes tY]
  note iv = c2_plane_ranges [where cs = sha1_engine,
      OF pcI dI rd gradient_geometry(2) Y U fits gradient_rows refl p,
      unfolded gradient_planes tI]
  from yv iv pcY fY pcI fI rd gradient_geometry fits gradient_rows show ?thesis by blast
qed

subsection \<open>C3: the plane geometry rule\<close>

text \<open>
  C3. For every plane index, width and height, \<open>get_plane_width_and_height\<close> returns
  (width, height) for plane 0 and (floor (width / 2), floor (height / 2)) for any other
  plane. The function takes no pixel format, so the rule cannot depend on it. The halves
  are the floor of the halves of the unsigned values.
\<close>

theorem c3_plane_geometry:
  "get_plane_width_and_height 0 width height = (width, height) \<and>
   (plane \<noteq> 0 \<longrightarrow>
      get_plane_width_and_height plane width height = (width div 2, height div 2) \<and>
      unat (fst (get_plane_width_and_height plane width height)) = unat width div 2 \<and>
      unat (snd (get_plane_width_and_height plane width height)) = unat height div 2)"
  by (simp add: get_plane_width_and_height_def unat_half)

theorem c3_plane_geometry_witness:
  "get_plane_width_and_height 0 5 7 = (5, 7) \<and>
   (2::guint) \<noteq> 0 \<and>
   get_plane_width_and_height 2 5 7 = (2, 3) \<and>
   unat (fst (get_plane_width_and_height 2 5 7)) = 2"
  using c3_plane_geometry [of 5 7 2] by simp

subsection \<open>C4: the size of the scratch buffer\<close>

text \<open>
  C4, at a frame where the code departs from it. For a negotiated I420 stream of
  1431655766 by 2 the packed byte count width * height + 2 * floor (width / 2) *
  floor (height / 2) is 4294967298, but the sum is computed in 32-bit unsigned
  arithmetic and the one allocation of the call asks for 2 bytes. (For a call that
  returns normally the allocation has exactly the packed byte count, lemma
  \<open>render_OK\<close>; a call whose packed byte count does not fit in 32 bits never returns
  normally, lemma \<open>render_overflow_not_OK\<close>.)
\<close>

theorem c4_wide_frame_size:
  "frame_width_height wide_sink wide_buffer = (1431655766, 2) \<and>
   snd (snd (gst_checksum_sink_render sha1_engine wide_sink wide_buffer)) =
     [FrameMap True, Malloc 2] \<and>
   unat (1431655766::guint) * unat (2::guint) +
     2 * ((unat (1431655766::guint) div 2) * (unat (2::guint) div 2)) = 4294967298"
  by (simp add: wide_render) (simp add: frame_width_height_def wide_sink_def wide_buffer_def)

subsection \<open>C5: stride independence\<close>



subsection \<open>C6: the crop override\<close>

text \<open>
  C6. The width and height a call works with are those of the buffer's crop meta when it
  has one and the negotiated ones otherwise; with a crop meta the call behaves as a call
  on a stream negotiated at the crop's width and height would. The call leaves the sink,
  and so the negotiated geometry, as it was: the next buffer is processed as if the
  cropped one had never been seen.
\<close>

theorem c6_crop_override:
  "fst (gst_checksum_sink_render cs sink buffer) = sink \<and>
   (crop_meta buffer = None \<longrightarrow>
      frame_width_height sink buffer = (vinfo_width (vinfo sink), vinfo_height (vinfo sink))) \<and>
   (crop_meta buffer = Some crop \<longrightarrow>
      frame_width_height sink buffer = (crop_width crop, crop_height crop) \<and>
      snd (gst_checksum_sink_render cs sink buffer) =
        snd (gst_checksum_sink_render cs
               (sink\<lparr>vinfo := (vinfo sink)\<lparr>vinfo_width := crop_width crop,
                                              vinfo_height := crop_height crop\<rparr>\<rparr>)
               (buffer\<lparr>crop_meta := None\<rparr>))) \<and>
   gst_checksum_sink_render cs (fst (gst_checksum_sink_render cs sink buffer)) next_buffer =
     gst_checksum_sink_render cs sink next_buffer"
  using render_crop [of buffer crop cs sink]
  by (simp add: render_sink_unchanged frame_width_height_def)

theorem c6_crop_override_witness:
  "crop_meta scenario_buffer = None \<and>
   frame_width_height scenario_sink scenario_buffer = (4, 4) \<and>
   crop_meta cropped_buffer =
     Some \<lparr>crop_x = 0, crop_y = 0, crop_width = 2, crop_height = 2\<rparr> \<and>
   frame_width_height scenario_sink cropped_buffer = (2, 2) \<and>
   fst (gst_checksum_sink_render sha1_engine scenario_sink cropped_buffer) = scenario_sink \<and>
   gst_checksum_sink_render sha1_engine
       (fst (gst_checksum_sink_render sha1_engine scenario_sink cropped_buffer)) scenario_buffer =
     gst_checksum_sink_render sha1_engine scenario_sink scenario_buffer"
proof -
  have a: "crop_meta scenario_buffer = None"
    by (simp add: scenario_buffer_def)
  have b: "crop_meta cropped_buffer =
     Some \<lparr>crop_x = 0, crop_y = 0, crop_width = 2, crop_height = 2\<rparr>"
    by (simp add: cropped_buffer_def)
  have v: "vinfo_width (vinfo scenario_sink) = 4" "vinfo_height (vinfo scenario_sink) = 4"
    by (simp_all add: scenario_sink_def)
  from c6_crop_override [of sha1_engine scenario_sink scenario_buffer
      "\<lparr>crop_x = 0, crop_y = 0, crop_width = 2, crop_height = 2\<rparr>" scenario_buffer]
    c6_crop_override [of sha1_engine scenario_sink cropped_buffer
      "\<lparr>crop_x = 0, crop_y = 0, crop_width = 2, crop_height = 2\<rparr>" scenario_buffer]
    a b v
  show ?thesis by simp
qed

subsection \<open>C7: unsupported formats\<close>

text \<open>
  C7. For every frame whose negotiated format is neither I420 nor YV12 the call returns
  \<open>GST_FLOW_ERROR\<close> at once: its event list is empty, so the source buffer is not
  mapped, no scratch buffer is allocated and nothing is printed. The sink is unchanged.
\<close>

theorem c7_unsupported_format:
  assumes "vinfo_format (vinfo checksumsink) \<noteq> GST_VIDEO_FORMAT_I420"
    and "vinfo_format (vinfo checksumsink) \<noteq> GST_VIDEO_FORMAT_YV12"
  shows "gst_checksum_sink_render cs checksumsink buffer = (checksumsink, GST_FLOW_ERROR, [])"
  using assms by (rule render_unsupported)

theorem c7_unsupported_format_witness:
  "vinfo_format (vinfo nv12_sink) \<noteq> GST_VIDEO_FORMAT_I420 \<and>
   vinfo_format (vinfo nv12_sink) \<noteq> GST_VIDEO_FORMAT_YV12 \<and>
   gst_checksum_sink_render sha1_engine nv12_sink scenario_buffer =
     (nv12_sink, GST_FLOW_ERROR, [])"
proof -
  have a: "vinfo_format (vinfo nv12_sink) \<noteq> GST_VIDEO_FORMAT_I420"
    and b: "vinfo_format (vinfo nv12_sink) \<noteq> GST_VIDEO_FORMAT_YV12"
    by (simp_all add: nv12_sink_def)
  from c7_unsupported_format [OF a b, of sha1_engine scenario_buffer] a b
  show ?thesis by blast
qed

subsection \<open>C8: one line of output per processed frame\<close>

text \<open>
  C8, as the code has it. A call that returns \<open>GST_FLOW_OK\<close> prints exactly one line.
  In per-plane mode the line is the digest of plane 0, of plane 1 and of plane 2, each
  followed by two spaces (the last one too), and then the newline; in whole-frame mode it
  is \<open>FrameChecksum\<close>, a space, the digest of the packed frame and the newline. Never
  both. With an engine that yields hexadecimal digests the printed text holds one newline,
  its last character.
\<close>

theorem c8_one_line:
  assumes ok: "gst_checksum_sink_render cs sink buffer = (sink', GST_FLOW_OK, evs)"
    and wh: "frame_width_height sink buffer = (width, height)"
    and pb: "pb = plane_bytes (plane_data buffer) (plane_stride buffer) width height"
    and hex: "\<forall>ty bs. is_hex (cs ty bs)"
  shows "(plane_checksum sink \<longrightarrow>
            printed evs = cs (checksum_type sink) (pb 0) @ ''  '' @
                          cs (checksum_type sink) (pb 1) @ ''  '' @
                          cs (checksum_type sink) (pb 2) @ ''  '' @ newline) \<and>
         (\<not> plane_checksum sink \<longrightarrow>
            printed evs = ''FrameChecksum '' @
                          cs (checksum_type sink) (pb 0 @ pb 1 @ pb 2) @ newline) \<and>
         count_list (printed evs) (CHR 0x0A) = 1 \<and>
         last (printed evs) = CHR 0x0A"
proof -
  note E = render_OK(10) [OF ok wh pb]
  have n: "count_list (cs ty bs) (CHR 0x0A) = 0" for ty bs
    using hex by (simp add: is_hex_no_newline)
  show ?thesis
  proof (cases "plane_checksum sink")
    case True
    with E have p: "printed evs = cs (checksum_type sink) (pb 0) @ ''  '' @
                          cs (checksum_type sink) (pb 1) @ ''  '' @
                          cs (checksum_type sink) (pb 2) @ ''  '' @ newline"
      by (simp add: printed_def)
    have "count_list (printed evs) (CHR 0x0A) = 1"
      unfolding p by (simp add: n newline_def)
    moreover have "last (printed evs) = CHR 0x0A"
      unfolding p by (simp add: newline_def)
    ultimately show ?thesis using True p by simp
  next
    case False
    with E have p: "printed evs = ''FrameChecksum '' @
                          cs (checksum_type sink) (pb 0 @ pb 1 @ pb 2) @ newline"
      by (simp add: printed_def)
    have "count_list (printed evs) (CHR 0x0A) = 1"
      unfolding p by (simp add: n newline_def)
    moreover have "last (printed evs) = CHR 0x0A"
      unfolding p by (simp add: newline_def)
    ultimately show ?thesis using False p by simp
  qed
qed

theorem c8_one_line_witness:
  "(\<forall>ty bs. is_hex (sha1_engine ty bs)) \<and>
   fst (snd (gst_checksum_sink_render sha1_engine scenario_sink scenario_buffer)) = GST_FLOW_OK \<and>
   \<not> plane_checksum scenario_sink \<and>
   printed (snd (snd (gst_checksum_sink_render sha1_engine scenario_sink scenario_buffer))) =
     ''FrameChecksum '' @ sha1_engine G_CHECKSUM_SHA1 (replicate 24 0) @ newline \<and>
   count_list (printed (snd (snd (gst_checksum_sink_render sha1_engine scenario_sink
     scenario_buffer)))) (CHR 0x0A) = 1 \<and>
   fst (snd (gst_checksum_sink_render sha1_engine (scenario_sink\<lparr>plane_checksum := True\<rparr>)
     scenario_buffer)) = GST_FLOW_OK \<and>
   plane_checksum (scenario_sink\<lparr>plane_checksum := True\<rparr>) \<and>
   printed (snd (snd (gst_checksum_sink_render sha1_engine (scenario_sink\<lparr>plane_checksum := True\<rparr>)
     scenario_buffer))) =
     sha1_engine G_CHECKSUM_SHA1 (replicate 16 0) @ ''  '' @
     sha1_engine G_CHECKSUM_SHA1 (replicate 4 0) @ ''  '' @
     sha1_engine G_CHECKSUM_SHA1 (replicate 4 0) @ ''  '' @ newline \<and>
   count_list (printed (snd (snd (gst_checksum_sink_render sha1_engine
     (scenario_sink\<lparr>plane_checksum := True\<rparr>) scenario_buffer)))) (CHR 0x0A) = 1"
proof -
  let ?whole = "gst_checksum_sink_render sha1_engine scenario_sink scenario_buffer"
  let ?planes = "gst_checksum_sink_render sha1_engine (scenario_sink\<lparr>plane_checksum := True\<rparr>)
     scenario_buffer"
  have hex: "\<forall>ty bs. is_hex (sha1_engine ty bs)"
    by (simp add: is_hex_sha1_engine)
  have okW: "?whole = (fst ?whole, GST_FLOW_OK, snd (snd ?whole))"
    and okP: "?planes = (fst ?planes, GST_FLOW_OK, snd (snd ?planes))"
    by (simp_all add: scenario_render plane_scenario_render)
  have rW: "fst (snd ?whole) = GST_FLOW_OK" and rP: "fst (snd ?planes) = GST_FLOW_OK"
    by (simp_all add: scenario_render plane_scenario_render)
  have t: "checksum_type scenario_sink = G_CHECKSUM_SHA1" "\<not> plane_checksum scenario_sink"
    "checksum_type (scenario_sink\<lparr>plane_checksum := True\<rparr>) = G_CHECKSUM_SHA1"
    "plane_checksum (scenario_sink\<lparr>plane_checksum := True\<rparr>)"
    by (simp_all add: scenario_sink_def)
  note whole = c8_one_line [OF okW scenario_geometry(1) refl hex,
      unfolded scenario_planes replicate_16_4_4 t]
  note planes = c8_one_line [OF okP scenario_geometry(2) refl hex,
      unfolded scenario_planes t]
  from whole planes hex t(2,4) rW rP show ?thesis by blast
qed

text \<open>
  The per-plane line is not the three digests with one space between them and the
  newline after the last: \<open>g_print ("%s  ", checksum)\<close> puts two spaces after every
  digest.
\<close>

theorem c8_single_space_counterexample:
  "fst (snd (gst_checksum_sink_render sha1_engine (scenario_sink\<lparr>plane_checksum := True\<rparr>)
     scenario_buffer)) = GST_FLOW_OK \<and>
   printed (snd (snd (gst_checksum_sink_render sha1_engine (scenario_sink\<lparr>plane_checksum := True\<rparr>)
     scenario_buffer))) \<noteq>
     sha1_engine G_CHECKSUM_SHA1 (replicate 16 0) @ '' '' @
     sha1_engine G_CHECKSUM_SHA1 (replicate 4 0) @ '' '' @
     sha1_engine G_CHECKSUM_SHA1 (replicate 4 0) @ newline"
proof -
  let ?planes = "gst_checksum_sink_render sha1_engine (scenario_sink\<lparr>plane_checksum := True\<rparr>)
     scenario_buffer"
  let ?claimed = "sha1_engine G_CHECKSUM_SHA1 (replicate 16 0) @ '' '' @
     sha1_engine G_CHECKSUM_SHA1 (replicate 4 0) @ '' '' @
     sha1_engine G_CHECKSUM_SHA1 (replicate 4 0) @ newline"
  have ok: "fst (snd ?planes) = GST_FLOW_OK"
    by (simp add: plane_scenario_render)
  have p: "printed (snd (snd ?planes)) =
     sha1_engine G_CHECKSUM_SHA1 (replicate 16 0) @ ''  '' @
     sha1_engine G_CHECKSUM_SHA1 (replicate 4 0) @ ''  '' @
     sha1_engine G_CHECKSUM_SHA1 (replicate 4 0) @ ''  '' @ newline"
    by (simp add: plane_scenario_render printed_def)
  have "length (printed (snd (snd ?planes))) \<noteq> length ?claimed"
    unfolding p by (simp add: newline_def)
  then have "printed (snd (snd ?planes)) \<noteq> ?claimed" by auto
  with ok show ?thesis by blast
qed

subsection \<open>C9: a buffer that cannot be mapped\<close>

text \<open>
  C9. Whenever the map of the source buffer fails in a call, the call ends in
  \<open>g_assert_not_reached\<close>: the failed map is its only event, so nothing is allocated
  and nothing is printed, and there is no result beside the abort. The map is attempted,
  and fails in this way, for every frame of a supported format whose buffer cannot be
  mapped for reading.
\<close>

theorem c9_map_failure:
  "(FrameMap False \<in> set (snd (snd (gst_checksum_sink_render cs sink buffer))) \<longrightarrow>
      gst_checksum_sink_render cs sink buffer = (sink, ASSERT_NOT_REACHED, [FrameMap False]) \<and>
      printed (snd (snd (gst_checksum_sink_render cs sink buffer))) = []) \<and>
   ((vinfo_format (vinfo sink) = GST_VIDEO_FORMAT_I420 \<or>
     vinfo_format (vinfo sink) = GST_VIDEO_FORMAT_YV12) \<and>
    gst_video_frame_map (vinfo sink) buffer = None \<longrightarrow>
      gst_checksum_sink_render cs sink buffer = (sink, ASSERT_NOT_REACHED, [FrameMap False]))"
proof -
  obtain width height where wh: "frame_width_height sink buffer = (width, height)"
    by (cases "frame_width_height sink buffer")
  have unreadable: "\<not> readable buffer" if "gst_video_frame_map (vinfo sink) buffer = None"
    using that by (simp add: gst_video_frame_map_def split: if_splits)
  consider
    (unsupported) "vinfo_format (vinfo sink) \<noteq> GST_VIDEO_FORMAT_I420"
                  "vinfo_format (vinfo sink) \<noteq> GST_VIDEO_FORMAT_YV12"
  | (unmapped) "vinfo_format (vinfo sink) = GST_VIDEO_FORMAT_I420 \<or>
                vinfo_format (vinfo sink) = GST_VIDEO_FORMAT_YV12" "\<not> readable buffer"
  | (mapped) "vinfo_format (vinfo sink) = GST_VIDEO_FORMAT_I420 \<or>
              vinfo_format (vinfo sink) = GST_VIDEO_FORMAT_YV12" "readable buffer"
    by blast
  then show ?thesis
  proof cases
    case unsupported
    then show ?thesis by (simp add: render_unsupported)
  next
    case unmapped
    then show ?thesis by (simp add: render_unmapped printed_def)
  next
    case mapped
    let ?Y = "width * height"
    let ?U = "(width div 2) * (height div 2)"
    let ?sz = "?Y + ?U + ?U"
    have clean: "FrameMap False \<notin> set [FrameMap True, Malloc (unat ?sz)]" by simp
    note L = plane_loop_no_failed_map [OF clean, of cs sink
        "\<lparr>n_planes = 3, frame_data = plane_data buffer, frame_stride = plane_stride buffer\<rparr>"
        width height ?Y ?U ?U 3 0 0 "g_malloc ?sz"]
    have "FrameMap False \<notin> set (snd (snd (gst_checksum_sink_render cs sink buffer)))"
      using L
      by (auto simp: render_mapped [OF mapped wh refl refl refl]
            split: sum.splits prod.splits option.splits)
    moreover from mapped(2) unreadable
    have "gst_video_frame_map (vinfo sink) buffer \<noteq> None" by blast
    ultimately show ?thesis by blast
  qed
qed

theorem c9_map_failure_witness:
  "FrameMap False \<in> set (snd (snd (gst_checksum_sink_render sha1_engine scenario_sink
      unreadable_buffer))) \<and>
   vinfo_format (vinfo scenario_sink) = GST_VIDEO_FORMAT_I420 \<and>
   gst_video_frame_map (vinfo scenario_sink) unreadable_buffer = None \<and>
   gst_checksum_sink_render sha1_engine scenario_sink unreadable_buffer =
     (scenario_sink, ASSERT_NOT_REACHED, [FrameMap False]) \<and>
   printed (snd (snd (gst_checksum_sink_render sha1_engine scenario_sink unreadable_buffer))) = []"
proof -
  have f: "vinfo_format (vinfo scenario_sink) = GST_VIDEO_FORMAT_I420"
    by (simp add: scenario_sink_def)
  have b: "gst_video_frame_map (vinfo scenario_sink) unreadable_buffer = None"
    by (simp add: gst_video_frame_map_def unreadable_buffer_def)
  have u: "\<not> readable unreadable_buffer" by (simp add: unreadable_buffer_def)
  have e: "FrameMap False \<in> set (snd (snd (gst_checksum_sink_render sha1_engine scenario_sink
      unreadable_buffer)))"
    using f u by (simp add: render_unmapped)
  from c9_map_failure [of sha1_engine scenario_sink unreadable_buffer] e f b
  show ?thesis by blast
qed

subsection \<open>C10: the extraction loop stays inside the scratch buffer\<close>

text \<open>
  C10, at a frame where the code departs from it. For the negotiated I420 stream of
  1431655766 by 2 and a buffer that holds such a frame, the scratch buffer has 2 bytes
  and the first \<open>memcpy\<close> of the row loop, a row of 1431655766 bytes that the source
  plane does hold, writes past its end. (For a call that returns normally the bytes
  written are exactly the allocated ones, all of them are initialised when the digest is
  taken and the pointer freed is the allocation: lemma \<open>render_OK\<close>.)
\<close>

theorem c10_wide_frame_overrun:
  "gst_checksum_sink_render sha1_engine wide_sink wide_buffer =
     (wide_sink, INVALID_MEMORY_ACCESS, [FrameMap True, Malloc 2]) \<and>
   length (plane_data wide_buffer 0) = 2 * 1431655766 \<and>
   read_row (plane_data wide_buffer 0) 0 1431655766 \<noteq> None \<and>
   memcpy (g_malloc 2) 0 (plane_data wide_buffer 0) 0 1431655766 = None"
  by (simp add: wide_render) (simp add: wide_buffer_def read_row_def memcpy_def g_malloc_def)

end
